theory Spec2Isabelle
  imports Main "HOL-Library.Word" "HOL-Library.Log_Nat"
begin

unbundle bit_operations_syntax

section \<open>Python strings and integers\<close>

text \<open>
  The program is \<^verbatim>\<open>Calcular_IPv4/ipcalc.py\<close>. Its strings are modelled as
  \<^typ>\<open>string\<close>, a character standing for the code point of the same number
  (below 256); its integers, which are unbounded, as \<^typ>\<open>int\<close>.

  \<^verbatim>\<open>str.isspace\<close> holds, below 256, of the code points
  9 to 13, 28 to 32, 133 and 160; \<^verbatim>\<open>str.strip()\<close> removes them at both ends.
\<close>

definition isspace :: "char \<Rightarrow> bool" where
  "isspace c = (of_char c \<in> {9, 10, 11, 12, 13, 28, 29, 30, 31, 32, 133, 160 :: nat})"

definition str_strip :: "string \<Rightarrow> string" where
  "str_strip s = rev (dropWhile isspace (rev (dropWhile isspace s)))"

definition str_startswith :: "string \<Rightarrow> string \<Rightarrow> bool" where
  "str_startswith s p = (take (length p) s = p)"

text \<open>\<^verbatim>\<open>s.split(sep)\<close> for a separator of one character: never an empty list.\<close>

fun str_split :: "char \<Rightarrow> string \<Rightarrow> string list" where
  "str_split sep [] = [[]]"
| "str_split sep (c # cs) =
     (if c = sep then [] # str_split sep cs
      else (case str_split sep cs of
              [] \<Rightarrow> [[c]]
            | x # xs \<Rightarrow> (c # x) # xs))"

text \<open>\<^verbatim>\<open>sep.join(xs)\<close>.\<close>

fun str_join :: "string \<Rightarrow> string list \<Rightarrow> string" where
  "str_join sep [] = []"
| "str_join sep [x] = x"
| "str_join sep (x # y # ys) = x @ sep @ str_join sep (y # ys)"

text \<open>
  \<^verbatim>\<open>s.isascii()\<close> holds of the empty string too; \<^verbatim>\<open>s.isdigit()\<close> does not, and
  below 256 it accepts the superscripts 178, 179 and 185 beside the ten digits.
\<close>

definition str_isascii :: "string \<Rightarrow> bool" where
  "str_isascii s = list_all (\<lambda>c. (of_char c :: nat) < 128) s"

definition isdigit :: "char \<Rightarrow> bool" where
  "isdigit c = ((48 \<le> (of_char c :: nat) \<and> (of_char c :: nat) \<le> 57)
                \<or> of_char c \<in> {178, 179, 185 :: nat})"

definition str_isdigit :: "string \<Rightarrow> bool" where
  "str_isdigit s = (s \<noteq> [] \<and> list_all isdigit s)"

text \<open>
  \<^verbatim>\<open>int(s)\<close> on a string of ASCII digits (the only strings the library passes to
  it), most significant digit first. A string of more than 4300 digits is over the
  interpreter's default limit for the conversion, which raises \<^verbatim>\<open>ValueError\<close>.
\<close>

definition int_of_str :: "string \<Rightarrow> int" where
  "int_of_str s = foldl (\<lambda>acc c. acc * 10 + (int (of_char c) - 48)) 0 s"

definition max_str_digits :: nat where
  "max_str_digits = 4300"

text \<open>\<^verbatim>\<open>str(n)\<close> of an integer: decimal, no leading zero, a sign when negative.\<close>

definition digit_char :: "nat \<Rightarrow> char" where
  "digit_char d = char_of (48 + d)"

fun str_nat :: "nat \<Rightarrow> string" where
  "str_nat n = (if n < 10 then [digit_char n]
                else str_nat (n div 10) @ [digit_char (n mod 10)])"

declare str_nat.simps [simp del]

definition str_int :: "int \<Rightarrow> string" where
  "str_int n = (if n < 0 then CHR ''-'' # str_nat (nat (- n)) else str_nat (nat n))"

text \<open>\<^verbatim>\<open>x.bit_length()\<close>: the number of bits of the absolute value.\<close>

definition bit_length :: "int \<Rightarrow> int" where
  "bit_length x = int (floorlog 2 (nat \<bar>x\<bar>))"

section \<open>Exceptions\<close>

text \<open>
  The exceptions the program can meet. \<^verbatim>\<open>AddressValueError\<close> and
  \<^verbatim>\<open>NetmaskValueError\<close> are the library's subclasses of \<^verbatim>\<open>ValueError\<close>;
  \<open>LibValueError\<close> is a plain \<^verbatim>\<open>ValueError\<close> raised inside the library. Their
  messages are left out. \<open>ValueError\<close> carries the message of a
  \<^verbatim>\<open>ValueError\<close> that the program itself raises. \<open>MemoryError\<close> is what the
  interpreter raises when a list does not fit in memory; it has no message.
\<close>

datatype exn =
  AddressValueError | NetmaskValueError | LibValueError | ValueError string | MemoryError

definition exn_bind :: "exn + 'a \<Rightarrow> ('a \<Rightarrow> exn + 'b) \<Rightarrow> exn + 'b" where
  "exn_bind m f = (case m of Inl e \<Rightarrow> Inl e | Inr x \<Rightarrow> f x)"

fun map_exn :: "('a \<Rightarrow> exn + 'b) \<Rightarrow> 'a list \<Rightarrow> exn + 'b list" where
  "map_exn f [] = Inr []"
| "map_exn f (x # xs) =
     (case f x of
        Inl e \<Rightarrow> Inl e
      | Inr y \<Rightarrow> (case map_exn f xs of Inl e \<Rightarrow> Inl e | Inr ys \<Rightarrow> Inr (y # ys)))"

text \<open>
  \<^verbatim>\<open>list(it)\<close>: the elements that the iterable yields, in a new list. How many
  elements a list can hold depends on the memory of the machine: \<open>mem\<close>, the largest
  number of elements that fit, is a parameter of the model. Beyond it the interpreter
  raises \<^verbatim>\<open>MemoryError\<close>.
\<close>

definition py_list :: "nat \<Rightarrow> exn + 'a list \<Rightarrow> exn + 'a list" where
  "py_list mem it =
     exn_bind it (\<lambda>xs. if length xs > mem then Inl MemoryError else Inr xs)"

text \<open>\<^verbatim>\<open>int(s)\<close> with its failure.\<close>

definition py_int :: "string \<Rightarrow> exn + int" where
  "py_int s = (if length s > max_str_digits then Inl LibValueError else Inr (int_of_str s))"

section \<open>The standard library's \<^verbatim>\<open>ipaddress\<close> module, as far as the program uses it\<close>

text \<open>
  An \<^verbatim>\<open>IPv4Address\<close> object holds one attribute, \<^verbatim>\<open>_ip\<close>, an integer that
  its constructor leaves between 0 and \<^verbatim>\<open>_ALL_ONES\<close>: it is modelled as a
  32-bit word, \<^verbatim>\<open>int(a)\<close> as \<^term>\<open>uint a\<close>. The arithmetic the library does on
  these integers is done on \<^typ>\<open>int\<close>, as in Python.
\<close>

type_synonym IPv4Address = "32 word"

definition ALL_ONES :: int where
  "ALL_ONES = 2 ^ 32 - 1"

definition max_prefixlen :: int where
  "max_prefixlen = 32"

definition split_optional_netmask :: "string \<Rightarrow> exn + string list" where
  "split_optional_netmask address =
     (let addr = str_split CHR ''/'' address
      in if length addr > 2 then Inl AddressValueError else Inr addr)"

definition count_righthand_zero_bits :: "int \<Rightarrow> int \<Rightarrow> int" where
  "count_righthand_zero_bits number bits =
     (if number = 0 then bits
      else min bits (bit_length (NOT number AND (number - 1))))"

text \<open>\<^verbatim>\<open>_ip_int_from_prefix\<close>; its callers have checked \<open>0 \<le> prefixlen \<le> 32\<close>.\<close>

definition ip_int_from_prefix :: "int \<Rightarrow> int" where
  "ip_int_from_prefix prefixlen = ALL_ONES XOR drop_bit (nat prefixlen) ALL_ONES"

definition prefix_from_ip_int :: "int \<Rightarrow> exn + int" where
  "prefix_from_ip_int ip_int =
     (let trailing_zeroes = count_righthand_zero_bits ip_int max_prefixlen;
          prefixlen = max_prefixlen - trailing_zeroes;
          leading_ones = drop_bit (nat trailing_zeroes) ip_int;
          all_ones = push_bit (nat prefixlen) 1 - 1
      in if leading_ones \<noteq> all_ones then Inl LibValueError else Inr prefixlen)"

definition prefix_from_prefix_string :: "string \<Rightarrow> exn + int" where
  "prefix_from_prefix_string prefixlen_str =
     (if \<not> (str_isascii prefixlen_str \<and> str_isdigit prefixlen_str) then Inl NetmaskValueError
      else (case py_int prefixlen_str of
              Inl e \<Rightarrow> Inl NetmaskValueError
            | Inr prefixlen \<Rightarrow>
                if \<not> (0 \<le> prefixlen \<and> prefixlen \<le> max_prefixlen) then Inl NetmaskValueError
                else Inr prefixlen))"

definition parse_octet :: "string \<Rightarrow> exn + int" where
  "parse_octet octet_str =
     (if octet_str = [] then Inl LibValueError
      else if \<not> (str_isascii octet_str \<and> str_isdigit octet_str) then Inl LibValueError
      else if length octet_str > 3 then Inl LibValueError
      else if octet_str \<noteq> ''0'' \<and> hd octet_str = CHR ''0'' then Inl LibValueError
      else (case py_int octet_str of
              Inl e \<Rightarrow> Inl e
            | Inr octet_int \<Rightarrow> if octet_int > 255 then Inl LibValueError else Inr octet_int))"

text \<open>\<^verbatim>\<open>int.from_bytes(bs, 'big')\<close> and \<^verbatim>\<open>x.to_bytes(4, 'big')\<close>.\<close>

definition from_bytes :: "int list \<Rightarrow> int" where
  "from_bytes bs = foldl (\<lambda>acc b. acc * 256 + b) 0 bs"

definition to_bytes :: "IPv4Address \<Rightarrow> int list" where
  "to_bytes a = [uint a div 2 ^ 24 mod 256, uint a div 2 ^ 16 mod 256,
                 uint a div 2 ^ 8 mod 256, uint a mod 256]"

text \<open>
  \<^verbatim>\<open>_ip_int_from_string\<close>: any \<^verbatim>\<open>ValueError\<close> of an octet becomes an
  \<^verbatim>\<open>AddressValueError\<close>.
\<close>

definition ip_int_from_string :: "string \<Rightarrow> exn + int" where
  "ip_int_from_string ip_str =
     (if ip_str = [] then Inl AddressValueError
      else let octets = str_split CHR ''.'' ip_str
           in if length octets \<noteq> 4 then Inl AddressValueError
              else (case map_exn parse_octet octets of
                      Inl e \<Rightarrow> Inl AddressValueError
                    | Inr bs \<Rightarrow> Inr (from_bytes bs)))"

text \<open>\<^verbatim>\<open>_string_from_ip_int(self._ip)\<close>, which is \<^verbatim>\<open>str(a)\<close> of an address.\<close>

definition string_from_ip_int :: "IPv4Address \<Rightarrow> string" where
  "string_from_ip_int a = str_join ''.'' (map str_int (to_bytes a))"

text \<open>
  \<^verbatim>\<open>_prefix_from_ip_string\<close>: the string is read as an address, then tried as a
  netmask and, with its bits inverted, as a hostmask.
\<close>

definition prefix_from_ip_string :: "string \<Rightarrow> exn + int" where
  "prefix_from_ip_string ip_str =
     (case ip_int_from_string ip_str of
        Inl AddressValueError \<Rightarrow> Inl NetmaskValueError
      | Inl e \<Rightarrow> Inl e
      | Inr ip_int \<Rightarrow>
          (case prefix_from_ip_int ip_int of
             Inr prefixlen \<Rightarrow> Inr prefixlen
           | Inl e \<Rightarrow>
               (case prefix_from_ip_int (ip_int XOR ALL_ONES) of
                  Inr prefixlen \<Rightarrow> Inr prefixlen
                | Inl e' \<Rightarrow> Inl NetmaskValueError)))"

text \<open>
  The two constructors of \<^verbatim>\<open>IPv4Address\<close>: from an integer, which is checked
  against the range, and from a string, whose four bytes are below \<open>2\<^sup>3\<^sup>2\<close> without a
  check (lemma \<open>ip_int_from_string_Inr\<close>).
\<close>

definition IPv4Address_int :: "int \<Rightarrow> exn + IPv4Address" where
  "IPv4Address_int address =
     (if address < 0 then Inl AddressValueError
      else if address > ALL_ONES then Inl AddressValueError
      else Inr (word_of_int address))"

definition IPv4Address_str :: "string \<Rightarrow> exn + IPv4Address" where
  "IPv4Address_str addr_str =
     (if CHR ''/'' \<in> set addr_str then Inl AddressValueError
      else exn_bind (ip_int_from_string addr_str) (\<lambda>ip. Inr (word_of_int ip)))"

text \<open>
  The mask argument of \<^verbatim>\<open>_make_netmask\<close> is an integer or a string. The cache
  of the library only memoises the result.
\<close>

datatype mask_arg = MaskInt int | MaskStr string

definition make_netmask :: "mask_arg \<Rightarrow> exn + IPv4Address \<times> int" where
  "make_netmask arg =
     exn_bind
       (case arg of
          MaskInt prefixlen \<Rightarrow>
            if \<not> (0 \<le> prefixlen \<and> prefixlen \<le> max_prefixlen) then Inl NetmaskValueError
            else Inr prefixlen
        | MaskStr s \<Rightarrow>
            (case prefix_from_prefix_string s of
               Inl NetmaskValueError \<Rightarrow> prefix_from_ip_string s
             | Inl e \<Rightarrow> Inl e
             | Inr prefixlen \<Rightarrow> Inr prefixlen))
       (\<lambda>prefixlen.
          exn_bind (IPv4Address_int (ip_int_from_prefix prefixlen))
            (\<lambda>netmask. Inr (netmask, prefixlen)))"

text \<open>
  \<^verbatim>\<open>_split_addr_prefix\<close> of a string: the address and, after a \<open>/\<close>, the mask;
  without a \<open>/\<close> the mask is the integer 32.
\<close>

definition split_addr_prefix :: "string \<Rightarrow> exn + string \<times> mask_arg" where
  "split_addr_prefix address =
     exn_bind (split_optional_netmask address)
       (\<lambda>parts. case parts of
            [addr] \<Rightarrow> Inr (addr, MaskInt max_prefixlen)
          | [addr, msk] \<Rightarrow> Inr (addr, MaskStr msk)
          | _ \<Rightarrow> Inl LibValueError)"

text \<open>
  An \<^verbatim>\<open>IPv4Network\<close> object. \<open>net_addr\<close> is the address string the constructor
  was given, which the \<^verbatim>\<open>hosts\<close> of a /32 network reads again.
\<close>

record IPv4Network =
  net_network_address :: IPv4Address
  net_netmask :: IPv4Address
  net_prefixlen :: int
  net_addr :: string

definition IPv4Network :: "string \<times> mask_arg \<Rightarrow> bool \<Rightarrow> exn + IPv4Network" where
  "IPv4Network address strict =
     (case address of (addr, msk) \<Rightarrow>
        exn_bind (IPv4Address_str addr) (\<lambda>network_address.
        exn_bind (make_netmask msk) (\<lambda>(netmask, prefixlen).
          let packed = uint network_address
          in if packed AND uint netmask \<noteq> packed then
               (if strict then Inl LibValueError
                else exn_bind (IPv4Address_int (packed AND uint netmask)) (\<lambda>network_address'.
                       Inr \<lparr>net_network_address = network_address', net_netmask = netmask,
                            net_prefixlen = prefixlen, net_addr = addr\<rparr>))
             else Inr \<lparr>net_network_address = network_address, net_netmask = netmask,
                       net_prefixlen = prefixlen, net_addr = addr\<rparr>)))"

definition IPv4Network_str :: "string \<Rightarrow> bool \<Rightarrow> exn + IPv4Network" where
  "IPv4Network_str address strict =
     exn_bind (split_addr_prefix address) (\<lambda>parts. IPv4Network parts strict)"

definition hostmask :: "IPv4Network \<Rightarrow> exn + IPv4Address" where
  "hostmask network = IPv4Address_int (uint (net_netmask network) XOR ALL_ONES)"

definition broadcast_address :: "IPv4Network \<Rightarrow> exn + IPv4Address" where
  "broadcast_address network =
     exn_bind (hostmask network) (\<lambda>h.
       IPv4Address_int (uint (net_network_address network) OR uint h))"

definition num_addresses :: "IPv4Network \<Rightarrow> exn + int" where
  "num_addresses network =
     exn_bind (broadcast_address network) (\<lambda>b.
       Inr (uint b - uint (net_network_address network) + 1))"

text \<open>
  The addresses that \<^verbatim>\<open>network.hosts()\<close> yields, one after the other: every
  address for a /31, the constructor's own address for a /32, and otherwise the
  addresses strictly between the network address and the broadcast address. It is a
  generator for all but the /32; \<^const>\<open>py_list\<close> is what puts its elements in memory.
\<close>

definition hosts :: "IPv4Network \<Rightarrow> exn + IPv4Address list" where
  "hosts network =
     (if net_prefixlen network = max_prefixlen - 1 then
        exn_bind (broadcast_address network) (\<lambda>b.
          map_exn IPv4Address_int [uint (net_network_address network) .. uint b])
      else if net_prefixlen network = max_prefixlen then
        exn_bind (IPv4Address_str (net_addr network)) (\<lambda>a. Inr [a])
      else
        exn_bind (broadcast_address network) (\<lambda>b.
          map_exn IPv4Address_int [uint (net_network_address network) + 1 .. uint b - 1]))"

text \<open>An \<^verbatim>\<open>IPv4Interface\<close> object: its own \<^verbatim>\<open>_ip\<close> and its network.\<close>

record IPv4Interface =
  iface_ip :: IPv4Address
  iface_network :: IPv4Network

definition IPv4Interface :: "string \<Rightarrow> exn + IPv4Interface" where
  "IPv4Interface address =
     exn_bind (split_addr_prefix address) (\<lambda>(addr, msk).
     exn_bind (IPv4Address_str addr) (\<lambda>ip.
     exn_bind (IPv4Network (addr, msk) False) (\<lambda>network.
       Inr \<lparr>iface_ip = ip, iface_network = network\<rparr>)))"

text \<open>The property \<^verbatim>\<open>iface.ip\<close> builds a new address from the integer.\<close>

definition ip :: "IPv4Interface \<Rightarrow> exn + IPv4Address" where
  "ip iface = IPv4Address_int (uint (iface_ip iface))"

section \<open>The program\<close>

text \<open>The messages of the program; their accented letters are written by code point.\<close>

definition msg_formato :: string where
  "msg_formato = ''Formato inv'' @ [CHR 0xE1] @ ''lido. Use IP/CIDR ou '' @ [CHR 0x27]
                 @ ''IP MASCARA'' @ [CHR 0x27] @ ''.''"

definition msg_mascara :: string where
  "msg_mascara = ''M'' @ [CHR 0xE1] @ ''scara inv'' @ [CHR 0xE1] @ ''lida: ''"

definition msg_use :: string where
  "msg_use = ''Use: script.py <IP/CIDR>  OU  script.py <IP> <MASCARA>''"

definition msg_entrada :: string where
  "msg_entrada = ''Entrada inv'' @ [CHR 0xE1] @ ''lida: ''"

text \<open>
  \<^verbatim>\<open>parse_input(argv)\<close>: one argument with a \<open>/\<close> passes through; of two
  arguments the second is a \<open>/N\<close> suffix or is turned into a prefix length by
  \<^verbatim>\<open>IPv4Network("0.0.0.0/" + mask).prefixlen\<close>, any exception of which becomes
  the program's own \<^verbatim>\<open>ValueError\<close>.
\<close>

definition parse_input :: "string list \<Rightarrow> exn + string" where
  "parse_input argv =
     (if length argv = 1 then
        (let s = str_strip (argv ! 0)
         in if CHR ''/'' \<in> set s then Inr s
            else Inl (ValueError msg_formato))
      else if length argv = 2 then
        (let ip = str_strip (argv ! 0);
             msk = str_strip (argv ! 1)
         in if str_startswith msk ''/'' then Inr (ip @ msk)
            else (case exn_bind (IPv4Network_str (''0.0.0.0/'' @ msk) True)
                         (\<lambda>network. Inr (net_prefixlen network)) of
                    Inr prefix \<Rightarrow> Inr (ip @ ''/'' @ str_int prefix)
                  | Inl e \<Rightarrow> Inl (ValueError (msg_mascara @ msk))))
      else Inl (ValueError msg_use))"

text \<open>The dictionary that \<^verbatim>\<open>summarize\<close> returns, one field for each key.\<close>

record summary =
  input_ip :: string
  network_address :: string
  netmask :: string
  prefix :: string
  broadcast :: string
  total_addresses :: int
  num_usable :: int
  first_usable :: string
  last_usable :: string
  gateway_suggestion :: string
  wildcard :: string

text \<open>
  \<^verbatim>\<open>str(x) if x else "N/A"\<close>: an address object is always true, \<^verbatim>\<open>None\<close> is
  false.
\<close>

definition str_or_na :: "IPv4Address option \<Rightarrow> string" where
  "str_or_na x = (case x of None \<Rightarrow> ''N/A'' | Some a \<Rightarrow> string_from_ip_int a)"

text \<open>
  \<^verbatim>\<open>summarize(target)\<close>, on a machine whose lists hold \<open>mem\<close> elements. Only the
  construction of the interface is inside the \<^verbatim>\<open>try\<close>; an exception of any later
  step leaves the function as it is, and so does the \<^verbatim>\<open>MemoryError\<close> of
  \<^verbatim>\<open>list(network.hosts())\<close>.
\<close>

definition summarize :: "nat \<Rightarrow> string \<Rightarrow> exn + summary" where
  "summarize mem target =
     (case IPv4Interface target of
        Inl e \<Rightarrow> Inl (ValueError (msg_entrada @ target))
      | Inr iface \<Rightarrow>
          exn_bind (ip iface) (\<lambda>ip.
          let network = iface_network iface;
              netmask = net_netmask network;
              prefix = net_prefixlen network
          in
          exn_bind (broadcast_address network) (\<lambda>broadcast.
          exn_bind (num_addresses network) (\<lambda>total_addrs.
          exn_bind
            (if prefix \<ge> 31 then Inr (None, None, 0, None)
             else
               exn_bind (py_list mem (hosts network)) (\<lambda>hosts_list.
                 let num_usable = int (length hosts_list)
                 in if num_usable > 0 then
                      Inr (Some (hd hosts_list), Some (last hosts_list), num_usable,
                           Some (hd hosts_list))
                    else Inr (None, None, num_usable, None)))
            (\<lambda>(first_usable, last_usable, num_usable, gateway).
          let wildcard_int = uint netmask XOR 0xFFFFFFFF
          in
          exn_bind (IPv4Address_int wildcard_int) (\<lambda>wildcard.
            Inr \<lparr>input_ip = string_from_ip_int ip,
                 network_address = string_from_ip_int (net_network_address network),
                 netmask = string_from_ip_int netmask,
                 prefix = ''/'' @ str_int prefix,
                 broadcast = string_from_ip_int broadcast,
                 total_addresses = total_addrs,
                 num_usable = num_usable,
                 first_usable = str_or_na first_usable,
                 last_usable = str_or_na last_usable,
                 gateway_suggestion = str_or_na gateway,
                 wildcard = string_from_ip_int wildcard\<rparr>))))))"

text \<open>\<^verbatim>\<open>pretty_print(d)\<close>: the lines it prints.\<close>

definition pretty_print :: "summary \<Rightarrow> string list" where
  "pretty_print d =
     [''Input IP:           '' @ input_ip d,
      ''Network:            '' @ network_address d @ '' '' @ prefix d,
      ''Netmask:            '' @ netmask d,
      ''Wildcard:           '' @ wildcard d,
      ''Broadcast:          '' @ broadcast d,
      ''Total endere'' @ [CHR 0xE7] @ ''os:    '' @ str_int (total_addresses d),
      ''Hosts utiliz'' @ [CHR 0xE1] @ ''veis:  '' @ str_int (num_usable d),
      ''Primeiro host:      '' @ first_usable d,
      [CHR 0xDA] @ ''ltimo host:        '' @ last_usable d,
      ''Gateway sugerido:   '' @ gateway_suggestion d]"

text \<open>
  \<^verbatim>\<open>str(e)\<close> of an exception: the message of the program's \<^verbatim>\<open>ValueError\<close>,
  the empty string for the \<^verbatim>\<open>MemoryError\<close> of the interpreter. The messages of the
  library's exceptions are not modelled; lemma \<open>main_error_cases\<close> shows that the
  handler never sees one.
\<close>

fun exn_str :: "exn \<Rightarrow> string" where
  "exn_str (ValueError m) = m"
| "exn_str MemoryError = []"
| "exn_str e = []"

definition usage_lines :: "string list" where
  "usage_lines =
     [''Uso: ipcalc.py <IP/CIDR>  OU  ipcalc.py <IP> <MASCARA>'',
      ''Exemplos: ipcalc.py 192.168.1.10/24'',
      ''          ipcalc.py 10.0.0.2 255.255.255.252'']"

text \<open>
  The script's body, as a function of \<^verbatim>\<open>sys.argv\<close>, on a machine whose lists hold
  \<open>mem\<close> elements: the lines printed and the exit code. \<^verbatim>\<open>sys.exit(1)\<close> raises
  \<^verbatim>\<open>SystemExit\<close>, which the handler of \<^verbatim>\<open>Exception\<close> does not catch; every
  other exception, \<^verbatim>\<open>MemoryError\<close> too, ends in exit code 2.
\<close>

definition main :: "nat \<Rightarrow> string list \<Rightarrow> string list \<times> int" where
  "main mem sys_argv =
     (if length sys_argv \<le> 1 then (usage_lines, 1)
      else
        (let args = tl sys_argv
         in case exn_bind (parse_input args) (summarize mem) of
              Inr out \<Rightarrow> (pretty_print out, 0)
            | Inl e \<Rightarrow> ([''Erro: '' @ exn_str e], 2)))"

section \<open>Notions used to state and prove the properties\<close>

text \<open>A string of ASCII decimal digits (possibly empty).\<close>

definition digits :: "string \<Rightarrow> bool" where
  "digits s = list_all (\<lambda>c. 48 \<le> (of_char c :: nat) \<and> (of_char c :: nat) \<le> 57) s"

text \<open>
  The netmask of a prefix length as a word: the top \<open>p\<close> bits set, the other
  \<open>32 - p\<close> clear. Lemma \<open>ip_int_from_prefix_word\<close> shows that it is the integer
  \<^verbatim>\<open>_ip_int_from_prefix\<close> computes.
\<close>

definition prefix_netmask :: "nat \<Rightarrow> IPv4Address" where
  "prefix_netmask p = NOT (mask (32 - p))"

text \<open>A word of the form \<open>1\<^sup>n 0\<^sup>3\<^sup>2\<^sup>-\<^sup>n\<close> for some \<open>n\<close> from 0 to 32.\<close>

definition is_netmask :: "IPv4Address \<Rightarrow> bool" where
  "is_netmask w = list_ex (\<lambda>p. w = prefix_netmask p) [0 ..< 33]"

text \<open>
  The network and the interface that the library builds for the address \<open>a\<close> and the
  prefix length \<open>p\<close>, from the address string \<open>addr\<close>.
\<close>

definition the_network :: "IPv4Address \<Rightarrow> nat \<Rightarrow> string \<Rightarrow> IPv4Network" where
  "the_network a p addr =
     \<lparr>net_network_address = a AND prefix_netmask p, net_netmask = prefix_netmask p,
      net_prefixlen = int p, net_addr = addr\<rparr>"

definition the_iface :: "IPv4Address \<Rightarrow> nat \<Rightarrow> string \<Rightarrow> IPv4Interface" where
  "the_iface a p addr = \<lparr>iface_ip = a, iface_network =
     \<lparr>net_network_address = a AND prefix_netmask p, net_netmask = prefix_netmask p,
      net_prefixlen = int p, net_addr = addr\<rparr>\<rparr>"

text \<open>
  The host list of a network of prefix length \<open>p\<close> fits in a memory of \<open>mem\<close>
  elements: for 31 and 32 no list is built, otherwise it has \<open>2 ^ (32 - p) - 2\<close>
  elements.
\<close>

definition host_list_fits :: "nat \<Rightarrow> nat \<Rightarrow> bool" where
  "host_list_fits mem p = (31 \<le> p \<or> 2 ^ (32 - p) - 2 \<le> int mem)"

text \<open>
  The closed form of the dictionary of \<^verbatim>\<open>summarize\<close> for the address \<open>a\<close> and the
  prefix length \<open>p\<close>; lemma \<open>summarize_Inr\<close> shows that every result of
  \<^const>\<open>summarize\<close> is of this form.
\<close>

definition summary_of :: "IPv4Address \<Rightarrow> nat \<Rightarrow> summary" where
  "summary_of a p =
     (let nm = prefix_netmask p; nw = a AND nm; b = nw OR NOT nm
      in \<lparr>input_ip = string_from_ip_int a,
          network_address = string_from_ip_int nw,
          netmask = string_from_ip_int nm,
          prefix = ''/'' @ str_int (int p),
          broadcast = string_from_ip_int b,
          total_addresses = 2 ^ (32 - p),
          num_usable = (if 31 \<le> p then 0 else 2 ^ (32 - p) - 2),
          first_usable = (if 31 \<le> p then ''N/A'' else string_from_ip_int (nw + 1)),
          last_usable = (if 31 \<le> p then ''N/A'' else string_from_ip_int (b - 1)),
          gateway_suggestion = (if 31 \<le> p then ''N/A'' else string_from_ip_int (nw + 1)),
          wildcard = string_from_ip_int (NOT nm)\<rparr>)"

text \<open>The target string \<open>address/prefix\<close> in its canonical decimal form.\<close>

definition cidr :: "IPv4Address \<Rightarrow> nat \<Rightarrow> string" where
  "cidr a p = string_from_ip_int a @ ''/'' @ str_int (int p)"

section \<open>Decimal strings, splitting and joining\<close>

lemma of_char_digit_char: "d < 10 \<Longrightarrow> (of_char (digit_char d) :: nat) = 48 + d"
  by (simp add: digit_char_def)

lemma digit_char_0: "digit_char 0 = CHR ''0''"
  by code_simp

lemma str_nat_ne: "str_nat n \<noteq> []"
  by (subst str_nat.simps) simp

lemma str_nat_digits: "c \<in> set (str_nat n) \<Longrightarrow> 48 \<le> (of_char c :: nat) \<and> (of_char c :: nat) \<le> 57"
proof (induction n arbitrary: c rule: str_nat.induct)
  case (1 n)
  show ?case
  proof (cases "n < 10")
    case True
    with "1.prems" show ?thesis
      by (subst (asm) str_nat.simps) (auto simp: of_char_digit_char)
  next
    case False
    with "1.prems" have "c \<in> set (str_nat (n div 10)) \<or> c = digit_char (n mod 10)"
      by (subst (asm) str_nat.simps) auto
    with False "1.IH" show ?thesis
      by (auto simp: of_char_digit_char)
  qed
qed

lemma int_of_str_snoc: "int_of_str (s @ [c]) = int_of_str s * 10 + (int (of_char c) - 48)"
  by (simp add: int_of_str_def)

lemma int_of_str_str_nat: "int_of_str (str_nat n) = int n"
proof (induction n rule: str_nat.induct)
  case (1 n)
  show ?case
  proof (cases "n < 10")
    case True
    then show ?thesis
      by (subst str_nat.simps) (simp add: int_of_str_def of_char_digit_char)
  next
    case False
    have "int_of_str (str_nat n) = int_of_str (str_nat (n div 10)) * 10 + int (n mod 10)"
      using False by (subst str_nat.simps) (simp add: int_of_str_snoc of_char_digit_char)
    also have "\<dots> = int (n div 10) * 10 + int (n mod 10)"
      using False "1.IH" by simp
    also have "\<dots> = int n"
      by (simp add: zmod_int zdiv_int)
    finally show ?thesis .
  qed
qed

lemma hd_str_nat: "hd (str_nat n) = CHR ''0'' \<longleftrightarrow> n = 0"
proof (induction n rule: str_nat.induct)
  case (1 n)
  show ?case
  proof (cases "n < 10")
    case True
    have "digit_char n = CHR ''0'' \<longleftrightarrow> n = 0"
    proof
      assume "digit_char n = CHR ''0''"
      then have "(of_char (digit_char n) :: nat) = of_char CHR ''0''" by simp
      with True show "n = 0" by (simp add: of_char_digit_char)
    qed (simp add: digit_char_0)
    with True show ?thesis
      by (subst str_nat.simps) simp
  next
    case False
    then have "hd (str_nat n) = hd (str_nat (n div 10))"
      by (subst str_nat.simps) (simp add: str_nat_ne)
    with False "1.IH" show ?thesis by auto
  qed
qed

lemma length_str_nat: "n < 10 ^ k \<Longrightarrow> 0 < k \<Longrightarrow> length (str_nat n) \<le> k"
proof (induction n arbitrary: k rule: str_nat.induct)
  case (1 n)
  show ?case
  proof (cases "n < 10")
    case True
    with "1.prems" show ?thesis by (subst str_nat.simps) simp
  next
    case False
    with "1.prems" obtain j where k: "k = Suc j" and j: "0 < j"
      by (cases k; cases "k - 1") auto
    with "1.prems" have "n div 10 < 10 ^ j"
      by (simp add: less_mult_imp_div_less mult.commute)
    with False j have "length (str_nat (n div 10)) \<le> j"
      by (intro "1.IH") auto
    with False k show ?thesis by (subst str_nat.simps) simp
  qed
qed

lemma ascii_isdigit_iff: "str_isascii s \<and> str_isdigit s \<longleftrightarrow> s \<noteq> [] \<and> digits s"
proof -
  have "(of_char c :: nat) < 128 \<and> isdigit c \<longleftrightarrow> 48 \<le> (of_char c :: nat) \<and> (of_char c :: nat) \<le> 57" for c
    by (auto simp: isdigit_def)
  then show ?thesis
    unfolding str_isascii_def str_isdigit_def digits_def list_all_iff by blast
qed

lemma of_char_eq_48: "(of_char c :: nat) = 48 \<longleftrightarrow> c = CHR ''0''"
proof
  assume "(of_char c :: nat) = 48"
  then have "char_of (of_char c :: nat) = char_of (48 :: nat)" by simp
  moreover have "char_of (48::nat) = CHR ''0''" by code_simp
  ultimately show "c = CHR ''0''" by simp
qed simp

lemma digit_char_of_char:
  "48 \<le> (of_char c :: nat) \<Longrightarrow> (of_char c :: nat) \<le> 57 \<Longrightarrow> digit_char (of_char c - 48) = c"
  by (simp add: digit_char_def)

lemma digits_str_nat: "digits (str_nat n)"
  using str_nat_digits by (auto simp: digits_def list_all_iff)

lemma int_of_str_nonneg: "digits s \<Longrightarrow> 0 \<le> int_of_str s"
  by (induction s rule: rev_induct) (auto simp: int_of_str_snoc digits_def int_of_str_def)

lemma int_of_str_pos: "digits s \<Longrightarrow> s \<noteq> [] \<Longrightarrow> hd s \<noteq> CHR ''0'' \<Longrightarrow> 0 < int_of_str s"
proof (induction s rule: rev_induct)
  case Nil
  then show ?case by simp
next
  case (snoc c s)
  show ?case
  proof (cases "s = []")
    case True
    with snoc.prems have "(of_char c :: nat) \<noteq> 48"
      by (simp add: of_char_eq_48)
    with True snoc.prems show ?thesis
      by (auto simp: int_of_str_def digits_def)
  next
    case False
    with snoc have "0 < int_of_str s" by (auto simp: digits_def)
    moreover from snoc.prems have "48 \<le> (of_char c :: nat)" by (auto simp: digits_def)
    ultimately show ?thesis by (simp add: int_of_str_snoc)
  qed
qed

lemma str_nat_int_of_str:
  "digits s \<Longrightarrow> s \<noteq> [] \<Longrightarrow> s = ''0'' \<or> hd s \<noteq> CHR ''0'' \<Longrightarrow> str_nat (nat (int_of_str s)) = s"
proof (induction s rule: rev_induct)
  case Nil
  then show ?case by simp
next
  case (snoc c s)
  from snoc.prems have c: "48 \<le> (of_char c :: nat)" "(of_char c :: nat) \<le> 57"
    by (auto simp: digits_def)
  show ?case
  proof (cases "s = []")
    case True
    have "nat (int_of_str [c]) = of_char c - 48"
      using c by (simp add: int_of_str_def)
    with True c show ?thesis
      by (subst str_nat.simps) (auto simp: digit_char_of_char)
  next
    case False
    with snoc.prems have hd: "hd s \<noteq> CHR ''0''" by auto
    from snoc.prems have ds: "digits s" by (auto simp: digits_def)
    from ds False hd have pos: "0 < int_of_str s" by (rule int_of_str_pos)
    from snoc.IH ds False hd have IH: "str_nat (nat (int_of_str s)) = s" by simp
    define v where "v = nat (int_of_str s)"
    define d where "d = (of_char c :: nat) - 48"
    have v: "0 < v" and d: "d < 10" using pos c by (auto simp: v_def d_def)
    have "nat (int_of_str (s @ [c])) = v * 10 + d"
      using pos c by (simp add: int_of_str_snoc v_def d_def nat_add_distrib nat_mult_distrib)
    moreover have "str_nat (v * 10 + d) = str_nat v @ [digit_char d]"
      using v d by (subst str_nat.simps) simp
    ultimately show ?thesis
      using IH c by (simp add: v_def d_def digit_char_of_char)
  qed
qed

lemma str_int_nonneg: "0 \<le> b \<Longrightarrow> str_int b = str_nat (nat b)"
  by (simp add: str_int_def)

lemma py_int_short: "length s \<le> 4300 \<Longrightarrow> py_int s = Inr (int_of_str s)"
  by (simp add: py_int_def max_str_digits_def)

lemma py_int_Inr: "py_int s = Inr v \<Longrightarrow> v = int_of_str s"
  by (simp add: py_int_def split: if_splits)

lemma parse_octet_str_int:
  assumes "0 \<le> b" "b \<le> 255"
  shows "parse_octet (str_int b) = Inr b"
proof -
  let ?s = "str_nat (nat b)"
  have ne: "?s \<noteq> []" by (rule str_nat_ne)
  have dg: "str_isascii ?s \<and> str_isdigit ?s"
    using ne digits_str_nat by (simp add: ascii_isdigit_iff)
  have "nat b < 10 ^ 3" using assms by simp
  then have len: "length ?s \<le> 3" by (rule length_str_nat) simp
  have lead: "?s = ''0'' \<or> hd ?s \<noteq> CHR ''0''"
  proof (cases "nat b = 0")
    case True
    then show ?thesis by (subst str_nat.simps) (simp add: digit_char_0)
  next
    case False
    then show ?thesis by (simp add: hd_str_nat)
  qed
  have val: "py_int ?s = Inr b" using assms len by (simp add: py_int_short int_of_str_str_nat)
  show ?thesis
    using ne dg len lead val assms
    by (auto simp: parse_octet_def str_int_nonneg Let_def)
qed

lemma parse_octet_Inr:
  assumes "parse_octet s = Inr v"
  shows "0 \<le> v \<and> v \<le> 255 \<and> str_int v = s"
proof -
  from assms have ne: "s \<noteq> []" and dg: "str_isascii s \<and> str_isdigit s"
    and lead: "s = ''0'' \<or> hd s \<noteq> CHR ''0''" and v: "v = int_of_str s" and le: "v \<le> 255"
    by (auto simp: parse_octet_def Let_def split: if_splits sum.splits dest: py_int_Inr)
  from dg have d: "digits s" by (simp add: ascii_isdigit_iff)
  then have nn: "0 \<le> v" unfolding v by (rule int_of_str_nonneg)
  from d ne lead have "str_nat (nat (int_of_str s)) = s" by (rule str_nat_int_of_str)
  with nn le v show ?thesis by (simp add: str_int_nonneg)
qed

subsection \<open>Splitting and joining\<close>

lemma str_split_ne: "str_split c s \<noteq> []"
  by (induction s) (auto split: list.splits)

lemma str_split_notin: "c \<notin> set s \<Longrightarrow> str_split c s = [s]"
  by (induction s) auto

lemma str_split_append:
  "c \<notin> set s \<Longrightarrow> str_split c (s @ c # t) = s # str_split c t"
  by (induction s) (auto split: list.splits)


lemma str_join_Cons: "ys \<noteq> [] \<Longrightarrow> str_join sep (x # ys) = x @ sep @ str_join sep ys"
  by (cases ys) auto

lemma str_join_split: "str_join [c] (str_split c s) = s"
proof (induction s)
  case Nil
  then show ?case by simp
next
  case (Cons a s)
  show ?case
  proof (cases "a = c")
    case True
    with Cons show ?thesis by (simp add: str_join_Cons str_split_ne)
  next
    case False
    obtain x xs where sp: "str_split c s = x # xs"
      using str_split_ne by (cases "str_split c s") auto
    with Cons have "str_join [c] (x # xs) = s" by simp
    then have "str_join [c] ((a # x) # xs) = a # s"
      by (cases xs) auto
    with False sp show ?thesis by simp
  qed
qed

lemma str_split_join4:
  assumes "c \<notin> set a" "c \<notin> set b" "c \<notin> set d" "c \<notin> set e"
  shows "str_split c (str_join [c] [a, b, d, e]) = [a, b, d, e]"
  using assms by (simp add: str_split_append str_split_notin)

section \<open>Addresses and their dotted strings\<close>

lemma to_bytes_range: "b \<in> set (to_bytes a) \<Longrightarrow> 0 \<le> b \<and> b \<le> 255"
  by (auto simp: to_bytes_def)

lemma div_mod_digit:
  fixes m q r :: int
  assumes "0 \<le> r" "r < m"
  shows "(m * q + r) div m = q" and "(m * q + r) mod m = r"
  using assms by (simp_all add: div_pos_pos_trivial)

lemma bytes_arith:
  fixes a b c d :: int
  assumes "0 \<le> a" "a \<le> 255" "0 \<le> b" "b \<le> 255" "0 \<le> c" "c \<le> 255" "0 \<le> d" "d \<le> 255"
  defines "x \<equiv> ((a * 256 + b) * 256 + c) * 256 + d"
  shows "x div 16777216 mod 256 = a"
    and "x div 65536 mod 256 = b"
    and "x div 256 mod 256 = c"
    and "x mod 256 = d"
proof -
  define y where "y = a * 256 + b"
  define z where "z = y * 256 + c"
  have x: "x = 256 * z + d" by (simp add: x_def z_def y_def)
  have z: "z = 256 * y + c" by (simp add: z_def)
  have y: "y = 256 * a + b" by (simp add: y_def)
  have x1: "x div 256 = z" and x0: "x mod 256 = d"
    unfolding x using assms by (simp_all only: div_mod_digit)
  have z1: "z div 256 = y" and z0: "z mod 256 = c"
    unfolding z using assms by (simp_all only: div_mod_digit)
  have y1: "y div 256 = a" and y0: "y mod 256 = b"
    unfolding y using assms by (simp_all only: div_mod_digit)
  have a0: "a mod 256 = a" using assms by simp
  have "x div 65536 = x div 256 div 256" by (simp add: zdiv_zmult2_eq)
  then have x2: "x div 65536 = y" by (simp only: x1 z1)
  have "x div 16777216 = x div 65536 div 256" by (simp add: zdiv_zmult2_eq)
  then have x3: "x div 16777216 = a" by (simp only: x2 y1)
  show "x div 16777216 mod 256 = a" by (simp only: x3 a0)
  show "x div 65536 mod 256 = b" by (simp only: x2 y0)
  show "x div 256 mod 256 = c" by (simp only: x1 z0)
  show "x mod 256 = d" by (rule x0)
qed

lemma from_bytes_to_bytes: "from_bytes (to_bytes a) = uint a"
proof -
  define u where "u = uint a"
  define v1 where "v1 = u div 256"
  define v2 where "v2 = v1 div 256"
  define v3 where "v3 = v2 div 256"
  define m0 where "m0 = u mod 256"
  define m1 where "m1 = v1 mod 256"
  define m2 where "m2 = v2 mod 256"
  have r: "0 \<le> u" "u < 4294967296"
    using uint_bounded [of a] by (simp_all add: u_def)
  have e2: "u div 65536 = v2"
    unfolding v2_def v1_def by (simp add: zdiv_zmult2_eq)
  have e3: "u div 16777216 = v3"
    unfolding v3_def v2_def v1_def by (simp add: zdiv_zmult2_eq)
  have "v3 < 256" "0 \<le> v3" using r unfolding e3 [symmetric] by simp_all
  then have m3: "v3 mod 256 = v3" by simp
  have "u = 256 * v1 + m0" "v1 = 256 * v2 + m1" "v2 = 256 * v3 + m2"
    unfolding v1_def v2_def v3_def m0_def m1_def m2_def by simp_all
  then have "((v3 * 256 + m2) * 256 + m1) * 256 + m0 = u"
    by simp
  then show ?thesis
    unfolding from_bytes_def to_bytes_def u_def [symmetric]
    by (simp add: e2 e3 m3 v1_def [symmetric] m0_def m1_def m2_def)
qed

lemma from_bytes4: "from_bytes [a, b, c, d] = ((a * 256 + b) * 256 + c) * 256 + d"
  by (simp add: from_bytes_def)

lemma from_bytes4_range:
  assumes "0 \<le> a \<and> a \<le> 255" "0 \<le> b \<and> b \<le> 255" "0 \<le> c \<and> c \<le> 255" "0 \<le> d \<and> d \<le> 255"
  shows "0 \<le> from_bytes [a, b, c, d] \<and> from_bytes [a, b, c, d] < 2 ^ 32"
proof -
  have "((a * 256 + b) * 256 + c) * 256 + d = 16777216 * a + 65536 * b + 256 * c + d"
    by simp
  with assms show ?thesis unfolding from_bytes4 by simp
qed

lemma uint_word_of_int_32: "0 \<le> v \<Longrightarrow> v < 2 ^ 32 \<Longrightarrow> uint (word_of_int v :: 32 word) = v"
  by (simp add: uint_word_of_int take_bit_int_eq_self)

lemma to_bytes_from_bytes4:
  assumes "0 \<le> a \<and> a \<le> 255" "0 \<le> b \<and> b \<le> 255" "0 \<le> c \<and> c \<le> 255" "0 \<le> d \<and> d \<le> 255"
  shows "to_bytes (word_of_int (from_bytes [a, b, c, d])) = [a, b, c, d]"
proof -
  let ?v = "from_bytes [a, b, c, d]"
  have r: "0 \<le> ?v \<and> ?v < 2 ^ 32" using assms by (rule from_bytes4_range)
  then have u: "uint (word_of_int (((a * 256 + b) * 256 + c) * 256 + d) :: 32 word)
                 = ((a * 256 + b) * 256 + c) * 256 + d"
    unfolding from_bytes4 by (simp only: uint_word_of_int_32)
  have e: "2 ^ 24 = (16777216 :: int)" "2 ^ 16 = (65536 :: int)" "2 ^ 8 = (256 :: int)"
    by simp_all
  from assms have "0 \<le> a" "a \<le> 255" "0 \<le> b" "b \<le> 255" "0 \<le> c" "c \<le> 255" "0 \<le> d" "d \<le> 255"
    by simp_all
  note ba = bytes_arith [OF this]
  show ?thesis
    unfolding to_bytes_def from_bytes4 u e by (simp only: ba)
qed

lemma digits_chars: "digits s \<Longrightarrow> c \<in> set s \<Longrightarrow> 48 \<le> (of_char c :: nat) \<and> (of_char c :: nat) \<le> 57"
  by (simp add: digits_def list_all_iff)

lemma digits_notin:
  assumes "digits s" "(of_char c :: nat) < 48 \<or> 57 < (of_char c :: nat)"
  shows "c \<notin> set s"
  using assms digits_chars [of s c] by auto

lemma digits_str_int: "0 \<le> b \<Longrightarrow> digits (str_int b)"
  by (simp add: str_int_nonneg digits_str_nat)

lemma digits_no_dot: "digits s \<Longrightarrow> CHR ''.'' \<notin> set s"
  using digits_chars [of s "CHR ''.''"] by auto

lemma digits_no_slash: "digits s \<Longrightarrow> CHR ''/'' \<notin> set s"
  using digits_chars [of s "CHR ''/''"] by auto

lemma mod256_le: "(x::int) mod 256 \<le> 255"
  using pos_mod_bound [of 256 x] by linarith

lemma to_bytes_eq: "\<exists>b1 b2 b3 b4. to_bytes a = [b1, b2, b3, b4]
    \<and> (0 \<le> b1 \<and> b1 \<le> 255) \<and> (0 \<le> b2 \<and> b2 \<le> 255) \<and> (0 \<le> b3 \<and> b3 \<le> 255) \<and> (0 \<le> b4 \<and> b4 \<le> 255)"
  by (simp add: to_bytes_def mod256_le)

lemma map_exn4:
  assumes "f a = Inr a'" "f b = Inr b'" "f c = Inr c'" "f d = Inr d'"
  shows "map_exn f [a, b, c, d] = Inr [a', b', c', d']"
  using assms by simp

lemma map_exn_Inr:
  "map_exn f xs = Inr ys \<Longrightarrow> length ys = length xs \<and> (\<forall>i < length xs. f (xs ! i) = Inr (ys ! i))"
proof (induction xs arbitrary: ys)
  case Nil
  then show ?case by simp
next
  case (Cons x xs)
  then obtain y ys' where y: "f x = Inr y" and ys': "map_exn f xs = Inr ys'" and ys: "ys = y # ys'"
    by (auto split: sum.splits)
  from Cons.IH [OF ys'] y ys show ?case
    by (auto simp: nth_Cons split: nat.splits)
qed

lemma ip_int_from_string_string_from_ip_int:
  "ip_int_from_string (string_from_ip_int a) = Inr (uint a)"
proof -
  obtain b1 b2 b3 b4 where tb: "to_bytes a = [b1, b2, b3, b4]"
    and r: "0 \<le> b1 \<and> b1 \<le> 255" "0 \<le> b2 \<and> b2 \<le> 255" "0 \<le> b3 \<and> b3 \<le> 255" "0 \<le> b4 \<and> b4 \<le> 255"
    using to_bytes_eq [of a] by blast
  define s1 s2 s3 s4 where "s1 = str_int b1" and "s2 = str_int b2" and "s3 = str_int b3" and "s4 = str_int b4"
  have d: "digits s1" "digits s2" "digits s3" "digits s4"
    using r by (simp_all add: s1_def s2_def s3_def s4_def digits_str_int)
  have nd: "CHR ''.'' \<notin> set s1" "CHR ''.'' \<notin> set s2" "CHR ''.'' \<notin> set s3" "CHR ''.'' \<notin> set s4"
    using d by (simp_all add: digits_no_dot)
  have s: "string_from_ip_int a = str_join ''.'' [s1, s2, s3, s4]"
    by (simp add: string_from_ip_int_def tb s1_def s2_def s3_def s4_def)
  have ne: "string_from_ip_int a \<noteq> []"
    unfolding s by simp
  have sp: "str_split CHR ''.'' (string_from_ip_int a) = [s1, s2, s3, s4]"
    unfolding s using nd by (rule str_split_join4)
  have po: "parse_octet s1 = Inr b1" "parse_octet s2 = Inr b2" "parse_octet s3 = Inr b3" "parse_octet s4 = Inr b4"
    using r by (simp_all add: s1_def s2_def s3_def s4_def parse_octet_str_int)
  have me: "map_exn parse_octet [s1, s2, s3, s4] = Inr [b1, b2, b3, b4]"
    using po by (rule map_exn4)
  have "from_bytes [b1, b2, b3, b4] = uint a"
    using from_bytes_to_bytes [of a] by (simp add: tb)
  then show ?thesis
    using ne by (simp add: ip_int_from_string_def sp po Let_def)
qed

lemma ip_int_from_string_Inr:
  assumes "ip_int_from_string s = Inr v"
  shows "0 \<le> v \<and> v < 2 ^ 32 \<and> string_from_ip_int (word_of_int v) = s"
proof -
  from assms have len: "length (str_split CHR ''.'' s) = 4"
    by (auto simp: ip_int_from_string_def Let_def split: if_splits)
  then obtain o1 o2 o3 o4 where sp: "str_split CHR ''.'' s = [o1, o2, o3, o4]"
    by (auto simp: length_Suc_conv numeral_eq_Suc)
  from assms obtain bs where me: "map_exn parse_octet [o1, o2, o3, o4] = Inr bs" and v: "v = from_bytes bs"
    by (auto simp: ip_int_from_string_def Let_def sp split: if_splits sum.splits)
  from me obtain b1 b2 b3 b4 where bs: "bs = [b1, b2, b3, b4]"
    and po: "parse_octet o1 = Inr b1" "parse_octet o2 = Inr b2" "parse_octet o3 = Inr b3" "parse_octet o4 = Inr b4"
    by (auto split: sum.splits)
  note p = po [THEN parse_octet_Inr]
  have r: "0 \<le> b1 \<and> b1 \<le> 255" "0 \<le> b2 \<and> b2 \<le> 255" "0 \<le> b3 \<and> b3 \<le> 255" "0 \<le> b4 \<and> b4 \<le> 255"
    using p by simp_all
  have st: "str_int b1 = o1" "str_int b2 = o2" "str_int b3 = o3" "str_int b4 = o4"
    using p by simp_all
  have rng: "0 \<le> v \<and> v < 2 ^ 32"
    unfolding v bs using r by (rule from_bytes4_range)
  have "to_bytes (word_of_int v) = [b1, b2, b3, b4]"
    unfolding v bs using r by (rule to_bytes_from_bytes4)
  then have "string_from_ip_int (word_of_int v) = str_join ''.'' [o1, o2, o3, o4]"
    by (simp add: string_from_ip_int_def st)
  also have "\<dots> = s"
    using str_join_split [of "CHR ''.''" s] by (simp add: sp)
  finally show ?thesis using rng by simp
qed

lemma string_from_ip_int_chars:
  assumes "c \<in> set (string_from_ip_int a)"
  shows "(48 \<le> (of_char c :: nat) \<and> (of_char c :: nat) \<le> 57) \<or> c = CHR ''.''"
proof -
  obtain b1 b2 b3 b4 where tb: "to_bytes a = [b1, b2, b3, b4]"
    and r: "0 \<le> b1 \<and> b1 \<le> 255" "0 \<le> b2 \<and> b2 \<le> 255" "0 \<le> b3 \<and> b3 \<le> 255" "0 \<le> b4 \<and> b4 \<le> 255"
    using to_bytes_eq [of a] by blast
  have d: "digits (str_int b1)" "digits (str_int b2)" "digits (str_int b3)" "digits (str_int b4)"
    using r by (simp_all add: digits_str_int)
  from assms have "c \<in> set (str_int b1) \<or> c \<in> set (str_int b2) \<or> c \<in> set (str_int b3)
      \<or> c \<in> set (str_int b4) \<or> c = CHR ''.''"
    by (auto simp: string_from_ip_int_def tb)
  with d show ?thesis
    using digits_chars by blast
qed

lemma string_from_ip_int_ne: "string_from_ip_int a \<noteq> []"
  using ip_int_from_string_string_from_ip_int [of a] by (auto simp: ip_int_from_string_def)

section \<open>Netmasks as words\<close>

lemma ALL_ONES_uint: "ALL_ONES = uint (- 1 :: 32 word)"
  by (simp add: ALL_ONES_def unsigned_minus_1_eq_mask mask_eq_exp_minus_1)

lemma uint_drop_bit32: "drop_bit n (uint (w :: 32 word)) = uint (drop_bit n w)"
proof -
  have "take_bit 32 (uint w) = uint w"
    using uint_bounded [of w] by (simp add: take_bit_int_eq_self)
  then show ?thesis by (simp add: unsigned_drop_bit_eq)
qed

lemma ip_int_from_prefix_word:
  "ip_int_from_prefix (int p) = uint (prefix_netmask p)"
proof -
  have "ip_int_from_prefix (int p) = uint ((- 1 :: 32 word) XOR drop_bit p (- 1))"
    by (simp only: ip_int_from_prefix_def ALL_ONES_uint nat_int uint_drop_bit32 uint_xor)
  also have "(- 1 :: 32 word) XOR drop_bit p (- 1) = NOT (mask (32 - p))"
    by (simp add: drop_bit_of_minus_1_eq)
  finally show ?thesis by (simp add: prefix_netmask_def)
qed

lemma IPv4Address_int_uint: "IPv4Address_int (uint a) = Inr a"
proof -
  have "uint a \<le> ALL_ONES"
    using uint_bounded [of a] by (simp add: ALL_ONES_def)
  then show ?thesis by (simp add: IPv4Address_int_def)
qed

lemma hostmask_word:
  "uint (nm :: 32 word) XOR ALL_ONES = uint (NOT nm)"
  by (simp only: ALL_ONES_uint uint_xor [symmetric] bit.xor_one_right)

lemma wildcard_word:
  "uint (nm :: 32 word) XOR 0xFFFFFFFF = uint (NOT nm)"
  using hostmask_word [of nm] by (simp add: ALL_ONES_def)

lemma netmask_and_le: "a AND prefix_netmask p \<le> a"
  by (rule word_and_le2)

lemma netmask_or_ge: "a \<le> (a AND prefix_netmask p) OR NOT (prefix_netmask p)"
proof -
  have "(a AND prefix_netmask p) OR NOT (prefix_netmask p) = a OR NOT (prefix_netmask p)"
    by (rule bit_eqI) (auto simp: bit_simps)
  then show ?thesis by (simp add: le_word_or2)
qed

lemma network_and_wildcard: "(a AND prefix_netmask p) AND NOT (prefix_netmask p) = 0"
  by (rule bit_eqI) (auto simp: bit_simps)

lemma uint_mask32: "k \<le> 32 \<Longrightarrow> uint (mask k :: 32 word) = 2 ^ k - 1"
  by (simp only: uint_mask_eq) (simp add: mask_eq_exp_minus_1 min_def)

lemma broadcast_uint:
  assumes "p \<le> 32"
  shows "uint ((a AND prefix_netmask p) OR NOT (prefix_netmask p))
           = uint (a AND prefix_netmask p) + 2 ^ (32 - p) - 1"
proof -
  let ?n = "a AND prefix_netmask p"
  let ?h = "NOT (prefix_netmask p)"
  have h: "?h = mask (32 - p)" by (simp add: prefix_netmask_def)
  have "?n + ?h = ?n OR ?h"
    by (rule disjunctive_add_eq_or) (rule network_and_wildcard)
  moreover have "?n \<le> ?n OR ?h" by (rule le_word_or2)
  ultimately have "uint (?n OR ?h) = uint ?n + uint ?h"
    using uint_plus_simple [of ?n ?h] by simp
  also have "uint ?h = 2 ^ (32 - p) - 1"
    unfolding h by (rule uint_mask32) simp
  finally show ?thesis by simp
qed

section \<open>Counting the zero bits on the right\<close>

lemma low_zeros_rec:
  fixes m :: int
  shows "NOT m AND (m - 1) = (if even m then 1 + 2 * (NOT (m div 2) AND (m div 2 - 1)) else 0)"
proof (cases "even m")
  case True
  then have "(m - 1) div 2 = m div 2 - 1" by (auto elim!: evenE)
  with True show ?thesis
    by (subst and_int_rec) (simp add: not_int_div_2)
next
  case False
  then have "(m - 1) div 2 = m div 2" by (auto elim!: oddE)
  with False show ?thesis
    by (subst and_int_rec) (simp add: not_int_div_2)
qed

lemma low_zeros:
  fixes m :: int
  assumes "0 < m"
  shows "\<exists>j. NOT m AND (m - 1) = 2 ^ j - 1 \<and> m = 2 ^ j * (m div 2 ^ j) \<and> odd (m div 2 ^ j)"
  using assms
proof (induction "nat m" arbitrary: m rule: less_induct)
  case less
  show ?case
  proof (cases "even m")
    case False
    then have "NOT m AND (m - 1) = 2 ^ 0 - 1 \<and> m = 2 ^ 0 * (m div 2 ^ 0) \<and> odd (m div 2 ^ 0)"
      by (subst low_zeros_rec) simp
    then show ?thesis by blast
  next
    case True
    define q where "q = m div 2"
    from True have m: "m = 2 * q" by (auto simp: q_def)
    with less.prems have q: "0 < q" "nat q < nat m" by auto
    from less.hyps [OF q(2) q(1)] obtain j where
      j: "NOT q AND (q - 1) = 2 ^ j - 1" "q = 2 ^ j * (q div 2 ^ j)" "odd (q div 2 ^ j)"
      by blast
    have d: "m div 2 ^ Suc j = q div 2 ^ j"
      by (simp add: m)
    have "NOT m AND (m - 1) = 1 + 2 * (NOT q AND (q - 1))"
      using True by (subst low_zeros_rec) (simp add: q_def)
    then have "NOT m AND (m - 1) = 2 ^ Suc j - 1"
      by (simp add: j(1))
    moreover have "m = 2 ^ Suc j * (m div 2 ^ Suc j)"
      unfolding d using j(2) m by simp
    moreover have "odd (m div 2 ^ Suc j)"
      unfolding d by (rule j(3))
    ultimately show ?thesis by blast
  qed
qed

lemma floorlog_mask: "floorlog 2 (2 ^ j - 1) = j"
proof (induction j)
  case 0
  then show ?case by (simp add: compute_floorlog)
next
  case (Suc j)
  have "(2 ^ Suc j - 1) div 2 = (2 ^ j - 1 :: nat)"
    by simp
  moreover have "(1 :: nat) < 2 ^ Suc j"
    using one_less_power [of "2 :: nat" "Suc j"] by simp
  then have "0 < (2 ^ Suc j - 1 :: nat)" by linarith
  ultimately show ?case
    using Suc by (subst compute_floorlog) (simp del: power_Suc)
qed

lemma bit_length_mask: "bit_length (2 ^ j - 1) = int j"
proof -
  have "nat \<bar>2 ^ j - 1 :: int\<bar> = 2 ^ j - 1"
    by (simp add: nat_diff_distrib nat_power_eq)
  then show ?thesis
    unfolding bit_length_def by (simp only: floorlog_mask)
qed

lemma pow2_odd_unique:
  fixes a b :: int
  assumes "2 ^ j * a = 2 ^ k * b" "odd a" "odd b"
  shows "j = k"
proof (rule ccontr)
  assume "j \<noteq> k"
  then consider "j < k" | "k < j" by linarith
  then show False
  proof cases
    case 1
    then obtain d where k: "k = j + Suc d" using less_iff_Suc_add by auto
    with assms(1) have "a = 2 * (2 ^ d * b)" by (simp add: power_add)
    with assms(2) show False by simp
  next
    case 2
    then obtain d where j: "j = k + Suc d" using less_iff_Suc_add by auto
    with assms(1) have "b = 2 * (2 ^ d * a)" by (simp add: power_add)
    with assms(3) show False by simp
  qed
qed

lemma uint_not32: "uint (NOT w :: 32 word) = 2 ^ 32 - 1 - uint w"
proof -
  have "NOT w = - 1 - w" by (simp add: not_eq_complement)
  moreover have "uint (- 1 :: 32 word) = 2 ^ 32 - 1"
    by (simp add: unsigned_minus_1_eq_mask mask_eq_exp_minus_1)
  moreover have "uint w \<le> uint (- 1 :: 32 word)"
    using uint_bounded [of w] calculation(2) by simp
  ultimately show ?thesis
    using uint_sub_lem [of w "- 1"] by simp
qed

lemma uint_prefix_netmask: "p \<le> 32 \<Longrightarrow> uint (prefix_netmask p) = 2 ^ 32 - 2 ^ (32 - p)"
  by (simp add: prefix_netmask_def uint_not32 uint_mask32)

lemma count_righthand_zero_bits_pos:
  assumes "0 < m"
  shows "\<exists>j. count_righthand_zero_bits m max_prefixlen = min 32 (int j)
             \<and> m = 2 ^ j * (m div 2 ^ j) \<and> odd (m div 2 ^ j)"
proof -
  from low_zeros [OF assms] obtain j where
    j: "NOT m AND (m - 1) = 2 ^ j - 1" "m = 2 ^ j * (m div 2 ^ j)" "odd (m div 2 ^ j)"
    by blast
  have "count_righthand_zero_bits m max_prefixlen = min 32 (int j)"
    using assms by (simp add: count_righthand_zero_bits_def max_prefixlen_def j(1) bit_length_mask)
  with j show ?thesis by blast
qed

lemma pow2_split: "j \<le> 32 \<Longrightarrow> (2 :: int) ^ 32 = 2 ^ j * 2 ^ (32 - j)"
  by (simp add: power_add [symmetric])

lemma prefix_from_ip_int_Inr:
  assumes "prefix_from_ip_int m = Inr n" "0 \<le> m" "m < 2 ^ 32"
  shows "\<exists>p\<le>32. n = int p \<and> m = uint (prefix_netmask p)"
proof (cases "m = 0")
  case True
  with assms(1) have "n = int 0"
    by (simp add: prefix_from_ip_int_def count_righthand_zero_bits_def max_prefixlen_def Let_def
        split: if_splits)
  moreover have "m = uint (prefix_netmask 0)"
    using True by (simp add: uint_prefix_netmask)
  ultimately show ?thesis by blast
next
  case False
  with assms(2) have pos: "0 < m" by simp
  from count_righthand_zero_bits_pos [OF pos] obtain j where
    tz: "count_righthand_zero_bits m max_prefixlen = min 32 (int j)"
    and m: "m = 2 ^ j * (m div 2 ^ j)" and od: "odd (m div 2 ^ j)"
    by blast
  have "0 < m div 2 ^ j"
    using pos m by (metis zero_less_mult_iff zero_less_numeral zero_less_power not_less_iff_gr_or_eq)
  then have "(2 :: int) ^ j \<le> m"
    using m by (metis mult.right_neutral mult_left_mono int_one_le_iff_zero_less zero_le_numeral zero_le_power)
  with assms(3) have "(2 :: int) ^ j < 2 ^ 32" by linarith
  have j: "j < 32"
  proof (rule ccontr)
    assume "\<not> j < 32"
    then have "(2 :: int) ^ 32 \<le> 2 ^ j" by (intro power_increasing) auto
    with \<open>(2 :: int) ^ j < 2 ^ 32\<close> show False by linarith
  qed
  then have tz': "count_righthand_zero_bits m 32 = int j"
    using tz by (simp add: max_prefixlen_def)
  from assms(1) have n: "n = 32 - int j"
    and lead: "drop_bit j m = push_bit (32 - j) 1 - 1"
    using j by (auto simp: prefix_from_ip_int_def tz' max_prefixlen_def Let_def nat_diff_distrib
        split: if_splits)
  from lead have "m div 2 ^ j = 2 ^ (32 - j) - 1"
    by (simp add: drop_bit_eq_div push_bit_eq_mult)
  with m have "m = 2 ^ j * (2 ^ (32 - j) - 1)" by simp
  also have "\<dots> = 2 ^ 32 - 2 ^ j"
    using j pow2_split [of j] by (simp add: right_diff_distrib)
  also have "\<dots> = uint (prefix_netmask (32 - j))"
    using j by (simp add: uint_prefix_netmask)
  finally have "m = uint (prefix_netmask (32 - j))" .
  moreover have "n = int (32 - j)" using n j by simp
  ultimately show ?thesis
    by (intro exI [of _ "32 - j"]) simp
qed

lemma prefix_from_ip_int_netmask:
  assumes "p \<le> 32"
  shows "prefix_from_ip_int (uint (prefix_netmask p)) = Inr (int p)"
proof (cases "p = 0")
  case True
  then have "uint (prefix_netmask p) = 0" by (simp add: uint_prefix_netmask)
  with True show ?thesis
    by (simp add: prefix_from_ip_int_def count_righthand_zero_bits_def max_prefixlen_def)
next
  case False
  define k where "k = 32 - p"
  define m where "m = uint (prefix_netmask p)"
  from False assms have k: "k < 32" "p = 32 - k" by (auto simp: k_def)
  have mk: "m = 2 ^ k * (2 ^ (32 - k) - 1)"
    using k assms pow2_split [of k]
    by (simp add: m_def uint_prefix_netmask k_def [symmetric] right_diff_distrib)
  have "(1 :: int) < 2 ^ (32 - k)"
    using k by (intro one_less_power) auto
  then have o2: "odd (2 ^ (32 - k) - 1 :: int)" and pos2: "0 < (2 ^ (32 - k) - 1 :: int)"
    using k by auto
  then have pos: "0 < m" unfolding mk by simp
  from count_righthand_zero_bits_pos [OF pos] obtain j where
    tz: "count_righthand_zero_bits m max_prefixlen = min 32 (int j)"
    and m: "m = 2 ^ j * (m div 2 ^ j)" and od: "odd (m div 2 ^ j)"
    by blast
  have "2 ^ j * (m div 2 ^ j) = 2 ^ k * (2 ^ (32 - k) - 1)"
    using m mk by simp
  then have jk: "j = k" using od o2 by (rule pow2_odd_unique)
  have tz': "count_righthand_zero_bits m 32 = int k"
    using tz k by (simp add: jk max_prefixlen_def)
  have "m div 2 ^ k = 2 ^ (32 - k) - 1"
    unfolding mk by simp
  then have "drop_bit k m = push_bit (32 - k) 1 - 1"
    by (simp add: drop_bit_eq_div push_bit_eq_mult)
  then show ?thesis
    using k unfolding m_def [symmetric]
    by (simp add: prefix_from_ip_int_def tz' max_prefixlen_def Let_def nat_diff_distrib)
qed

section \<open>Masks, networks and interfaces\<close>

lemma exn_bind_Inr [simp]: "exn_bind (Inr x) f = f x"
  by (simp add: exn_bind_def)

lemma exn_bind_Inl [simp]: "exn_bind (Inl e) f = Inl e"
  by (simp add: exn_bind_def)

lemma exn_bind_eq_Inr: "exn_bind m f = Inr y \<longleftrightarrow> (\<exists>x. m = Inr x \<and> f x = Inr y)"
  by (cases m) simp_all

lemma prefix_from_prefix_string_str_int:
  assumes "p \<le> 32"
  shows "prefix_from_prefix_string (str_int (int p)) = Inr (int p)"
proof -
  have "str_isascii (str_nat p) \<and> str_isdigit (str_nat p)"
    by (simp add: ascii_isdigit_iff str_nat_ne digits_str_nat)
  moreover have "p < 10 ^ 2" using assms by simp
  then have "length (str_nat p) \<le> 2" by (rule length_str_nat) simp
  then have "py_int (str_nat p) = Inr (int p)"
    by (simp add: py_int_short int_of_str_str_nat)
  ultimately show ?thesis
    using assms by (simp add: prefix_from_prefix_string_def str_int_nonneg max_prefixlen_def)
qed

lemma prefix_from_prefix_string_Inr:
  "prefix_from_prefix_string s = Inr n \<Longrightarrow> 0 \<le> n \<and> n \<le> 32 \<and> digits s \<and> s \<noteq> [] \<and> n = int_of_str s"
  by (auto simp: prefix_from_prefix_string_def max_prefixlen_def Let_def ascii_isdigit_iff
      split: if_splits sum.splits dest: py_int_Inr)

lemma prefix_from_prefix_string_Inl:
  "prefix_from_prefix_string s = Inl e \<Longrightarrow> e = NetmaskValueError"
  by (auto simp: prefix_from_prefix_string_def Let_def split: if_splits sum.splits)

lemma ip_int_from_string_word:
  "ip_int_from_string s = Inr v \<longleftrightarrow> (\<exists>w. v = uint w \<and> string_from_ip_int w = s)"
proof
  assume a: "ip_int_from_string s = Inr v"
  from ip_int_from_string_Inr [OF a]
  have "v = uint (word_of_int v :: 32 word) \<and> string_from_ip_int (word_of_int v) = s"
    by (simp add: uint_word_of_int_32)
  then show "\<exists>w. v = uint w \<and> string_from_ip_int w = s" by blast
next
  assume "\<exists>w. v = uint w \<and> string_from_ip_int w = s"
  then show "ip_int_from_string s = Inr v"
    using ip_int_from_string_string_from_ip_int by auto
qed

lemma ip_int_from_string_Inl: "ip_int_from_string s = Inl e \<Longrightarrow> e = AddressValueError"
  by (auto simp: ip_int_from_string_def Let_def split: if_splits sum.splits)

lemma is_netmask_iff: "is_netmask w \<longleftrightarrow> (\<exists>p\<le>32. w = prefix_netmask p)"
proof -
  have "p \<in> set [0 ..< 33] \<longleftrightarrow> p \<le> 32" for p :: nat by auto
  then show ?thesis unfolding is_netmask_def list_ex_iff by blast
qed

lemma prefix_netmask_inj: "p \<le> 32 \<Longrightarrow> q \<le> 32 \<Longrightarrow> prefix_netmask p = prefix_netmask q \<Longrightarrow> p = q"
  by (metis prefix_from_ip_int_netmask sum.inject(2) of_nat_eq_iff)

lemma prefix_from_ip_int_word:
  "prefix_from_ip_int (uint w) = Inr n \<longleftrightarrow> (\<exists>p\<le>32. n = int p \<and> w = prefix_netmask p)"
proof
  assume a: "prefix_from_ip_int (uint w) = Inr n"
  have "0 \<le> uint w" "uint w < 2 ^ 32" using uint_bounded [of w] by simp_all
  from prefix_from_ip_int_Inr [OF a this]
  show "\<exists>p\<le>32. n = int p \<and> w = prefix_netmask p"
    by (auto simp: word_uint_eq_iff)
next
  assume "\<exists>p\<le>32. n = int p \<and> w = prefix_netmask p"
  then show "prefix_from_ip_int (uint w) = Inr n"
    using prefix_from_ip_int_netmask by auto
qed

lemma prefix_from_ip_int_not_netmask:
  "\<not> is_netmask w \<Longrightarrow> \<exists>e. prefix_from_ip_int (uint w) = Inl e"
  using prefix_from_ip_int_word [of w] by (cases "prefix_from_ip_int (uint w)") (auto simp: is_netmask_iff)

lemma prefix_from_ip_string_word:
  "prefix_from_ip_string (string_from_ip_int w) =
     (if is_netmask w then prefix_from_ip_int (uint w)
      else if is_netmask (NOT w) then prefix_from_ip_int (uint (NOT w))
      else Inl NetmaskValueError)"
proof -
  have s: "ip_int_from_string (string_from_ip_int w) = Inr (uint w)"
    by (rule ip_int_from_string_string_from_ip_int)
  show ?thesis
  proof (cases "is_netmask w")
    case True
    then obtain p where "p \<le> 32" "w = prefix_netmask p" by (auto simp: is_netmask_iff)
    then have "prefix_from_ip_int (uint w) = Inr (int p)"
      by (simp add: prefix_from_ip_int_netmask)
    with True show ?thesis by (simp add: prefix_from_ip_string_def s)
  next
    case False
    then obtain e where e: "prefix_from_ip_int (uint w) = Inl e"
      using prefix_from_ip_int_not_netmask by blast
    show ?thesis
    proof (cases "is_netmask (NOT w)")
      case True
      then obtain p where "p \<le> 32" "NOT w = prefix_netmask p" by (auto simp: is_netmask_iff)
      then have "prefix_from_ip_int (uint (NOT w)) = Inr (int p)"
        by (simp add: prefix_from_ip_int_netmask)
      with True False show ?thesis
        by (simp add: prefix_from_ip_string_def s e hostmask_word)
    next
      case n: False
      then obtain e' where "prefix_from_ip_int (uint (NOT w)) = Inl e'"
        using prefix_from_ip_int_not_netmask by blast
      with n False show ?thesis
        by (simp add: prefix_from_ip_string_def s e hostmask_word)
    qed
  qed
qed

lemma prefix_from_ip_string_Inl:
  "prefix_from_ip_string s = Inl e \<Longrightarrow> e = NetmaskValueError"
  by (auto simp: prefix_from_ip_string_def split: sum.splits exn.splits dest: ip_int_from_string_Inl)

lemma prefix_from_ip_string_Inr:
  assumes "prefix_from_ip_string s = Inr n"
  shows "\<exists>w p. string_from_ip_int w = s \<and> p \<le> 32 \<and> n = int p
           \<and> (w = prefix_netmask p \<or> \<not> is_netmask w \<and> NOT w = prefix_netmask p)"
proof -
  from assms obtain v where "ip_int_from_string s = Inr v"
    by (auto simp: prefix_from_ip_string_def split: sum.splits exn.splits)
  then obtain w where w: "v = uint w" "string_from_ip_int w = s"
    by (auto simp: ip_int_from_string_word)
  from assms have "(if is_netmask w then prefix_from_ip_int (uint w)
      else if is_netmask (NOT w) then prefix_from_ip_int (uint (NOT w))
      else Inl NetmaskValueError) = Inr n"
    by (simp add: w(2) [symmetric] prefix_from_ip_string_word)
  then have "\<exists>p\<le>32. n = int p \<and> (w = prefix_netmask p \<or> \<not> is_netmask w \<and> NOT w = prefix_netmask p)"
    by (auto simp: prefix_from_ip_int_word split: if_splits)
  with w show ?thesis by blast
qed

lemma IPv4Address_int_prefix:
  "IPv4Address_int (ip_int_from_prefix (int p)) = Inr (prefix_netmask p)"
  by (simp only: ip_int_from_prefix_word IPv4Address_int_uint)

lemma make_netmask_Inr:
  assumes "make_netmask arg = Inr (nm, n)"
  shows "\<exists>p\<le>32. n = int p \<and> nm = prefix_netmask p"
proof -
  from assms obtain prefixlen where
    pl: "(case arg of
            MaskInt prefixlen \<Rightarrow>
              if \<not> (0 \<le> prefixlen \<and> prefixlen \<le> max_prefixlen) then Inl NetmaskValueError
              else Inr prefixlen
          | MaskStr s \<Rightarrow>
              (case prefix_from_prefix_string s of
                 Inl NetmaskValueError \<Rightarrow> prefix_from_ip_string s
               | Inl e \<Rightarrow> Inl e
               | Inr prefixlen \<Rightarrow> Inr prefixlen)) = Inr prefixlen"
    and r: "exn_bind (IPv4Address_int (ip_int_from_prefix prefixlen))
              (\<lambda>netmask. Inr (netmask, prefixlen)) = Inr (nm, n)"
    unfolding make_netmask_def exn_bind_eq_Inr by blast
  from pl have "0 \<le> prefixlen \<and> prefixlen \<le> 32"
    by (auto simp: max_prefixlen_def split: mask_arg.splits if_splits sum.splits exn.splits
        dest: prefix_from_prefix_string_Inr prefix_from_ip_string_Inr)
  then obtain p where p: "prefixlen = int p" "p \<le> 32"
    by (intro that [of "nat prefixlen"]) auto
  from r have "n = int p \<and> nm = prefix_netmask p"
    by (simp add: p(1) IPv4Address_int_prefix)
  with p show ?thesis by blast
qed

lemma make_netmask_MaskInt:
  "p \<le> 32 \<Longrightarrow> make_netmask (MaskInt (int p)) = Inr (prefix_netmask p, int p)"
  by (simp add: make_netmask_def max_prefixlen_def IPv4Address_int_prefix)

lemma make_netmask_str_int:
  "p \<le> 32 \<Longrightarrow> make_netmask (MaskStr (str_int (int p))) = Inr (prefix_netmask p, int p)"
  by (simp add: make_netmask_def prefix_from_prefix_string_str_int IPv4Address_int_prefix)

lemma string_from_ip_int_no_slash: "CHR ''/'' \<notin> set (string_from_ip_int a)"
  using string_from_ip_int_chars [of "CHR ''/''" a] by auto

lemma IPv4Address_str_string_from_ip_int: "IPv4Address_str (string_from_ip_int a) = Inr a"
  by (simp add: IPv4Address_str_def string_from_ip_int_no_slash
      ip_int_from_string_string_from_ip_int)

lemma IPv4Address_str_Inr: "IPv4Address_str s = Inr a \<longleftrightarrow> string_from_ip_int a = s"
proof
  assume "IPv4Address_str s = Inr a"
  then obtain v where "ip_int_from_string s = Inr v" "a = word_of_int v"
    by (auto simp: IPv4Address_str_def exn_bind_eq_Inr split: if_splits)
  then show "string_from_ip_int a = s"
    by (auto simp: ip_int_from_string_word)
next
  assume "string_from_ip_int a = s"
  then show "IPv4Address_str s = Inr a"
    using IPv4Address_str_string_from_ip_int by auto
qed

lemma network_address_masked:
  fixes a nm :: "32 word"
  shows "(if uint a AND uint nm \<noteq> uint a then IPv4Address_int (uint a AND uint nm) else Inr a)
           = Inr (a AND nm)"
proof (cases "uint a AND uint nm \<noteq> uint a")
  case True
  then show ?thesis
    by (simp add: uint_and [symmetric] IPv4Address_int_uint)
next
  case False
  then have "uint (a AND nm) = uint a" by (simp add: uint_and)
  then have "a AND nm = a" by (simp add: word_uint_eq_iff)
  with False show ?thesis by simp
qed

lemma IPv4Network_False_eq:
  "IPv4Network (addr, msk) False =
     exn_bind (IPv4Address_str addr) (\<lambda>a.
     exn_bind (make_netmask msk) (\<lambda>(nm, n).
       Inr \<lparr>net_network_address = a AND nm, net_netmask = nm,
            net_prefixlen = n, net_addr = addr\<rparr>))"
proof (cases "IPv4Address_str addr")
  case (Inl e)
  then show ?thesis by (simp add: IPv4Network_def)
next
  case a: (Inr a)
  show ?thesis
  proof (cases "make_netmask msk")
    case (Inl e)
    then show ?thesis by (simp add: IPv4Network_def a)
  next
    case (Inr r)
    obtain nm n where r: "r = (nm, n)" by (cases r)
    show ?thesis
    proof (cases "uint a AND uint nm \<noteq> uint a")
      case True
      then show ?thesis
        by (simp add: IPv4Network_def a Inr r uint_and [symmetric] IPv4Address_int_uint)
    next
      case False
      then have "uint (a AND nm) = uint a" by (simp add: uint_and)
      then have "a AND nm = a" by (simp add: word_uint_eq_iff)
      with False show ?thesis
        by (simp add: IPv4Network_def a Inr r)
    qed
  qed
qed

lemma IPv4Network_nonstrict:
  "IPv4Network (addr, msk) False = Inr net \<longleftrightarrow>
     (\<exists>a p. string_from_ip_int a = addr \<and> p \<le> 32
        \<and> make_netmask msk = Inr (prefix_netmask p, int p)
        \<and> net = \<lparr>net_network_address = a AND prefix_netmask p, net_netmask = prefix_netmask p,
                  net_prefixlen = int p, net_addr = addr\<rparr>)"
  (is "?L \<longleftrightarrow> ?R")
proof
  assume ?L
  then obtain a nm n where a: "IPv4Address_str addr = Inr a"
    and m: "make_netmask msk = Inr (nm, n)"
    and r: "net = \<lparr>net_network_address = a AND nm, net_netmask = nm,
                   net_prefixlen = n, net_addr = addr\<rparr>"
    unfolding IPv4Network_False_eq exn_bind_eq_Inr by (auto simp: exn_bind_eq_Inr)
  from make_netmask_Inr [OF m] obtain p where p: "p \<le> 32" "n = int p" "nm = prefix_netmask p"
    by blast
  from a have "string_from_ip_int a = addr" by (simp add: IPv4Address_str_Inr)
  with m p r show ?R by blast
next
  assume ?R
  then obtain a p where a: "string_from_ip_int a = addr" and p: "p \<le> 32"
    and m: "make_netmask msk = Inr (prefix_netmask p, int p)"
    and n: "net = \<lparr>net_network_address = a AND prefix_netmask p, net_netmask = prefix_netmask p,
                  net_prefixlen = int p, net_addr = addr\<rparr>"
    by blast
  from a have "IPv4Address_str addr = Inr a" by (simp add: IPv4Address_str_Inr)
  then show ?L
    by (simp add: IPv4Network_False_eq m n)
qed

lemma IPv4Interface_eq:
  "IPv4Interface target =
     exn_bind (split_addr_prefix target) (\<lambda>(addr, msk).
     exn_bind (IPv4Address_str addr) (\<lambda>a.
     exn_bind (make_netmask msk) (\<lambda>(nm, n).
       Inr \<lparr>iface_ip = a, iface_network =
         \<lparr>net_network_address = a AND nm, net_netmask = nm,
          net_prefixlen = n, net_addr = addr\<rparr>\<rparr>)))"
proof (cases "split_addr_prefix target")
  case (Inl e)
  then show ?thesis by (simp add: IPv4Interface_def)
next
  case (Inr r)
  obtain addr msk where r: "r = (addr, msk)" by (cases r)
  show ?thesis
  proof (cases "IPv4Address_str addr")
    case (Inl e)
    then show ?thesis by (simp add: IPv4Interface_def Inr r)
  next
    case a: (Inr a)
    show ?thesis
    proof (cases "make_netmask msk")
      case (Inl e)
      then show ?thesis by (simp add: IPv4Interface_def Inr r a IPv4Network_False_eq)
    next
      case m: (Inr q)
      obtain nm n where q: "q = (nm, n)" by (cases q)
      show ?thesis by (simp add: IPv4Interface_def Inr r a m q IPv4Network_False_eq)
    qed
  qed
qed

lemma IPv4Interface_Inr:
  "IPv4Interface target = Inr iface \<longleftrightarrow>
     (\<exists>msk a p. split_addr_prefix target = Inr (string_from_ip_int a, msk) \<and> p \<le> 32
        \<and> make_netmask msk = Inr (prefix_netmask p, int p)
        \<and> iface = the_iface a p (string_from_ip_int a))"
  (is "?L \<longleftrightarrow> ?R")
proof
  assume ?L
  then obtain addr msk a nm n where s: "split_addr_prefix target = Inr (addr, msk)"
    and a: "IPv4Address_str addr = Inr a"
    and m: "make_netmask msk = Inr (nm, n)"
    and i: "iface = \<lparr>iface_ip = a, iface_network =
         \<lparr>net_network_address = a AND nm, net_netmask = nm,
          net_prefixlen = n, net_addr = addr\<rparr>\<rparr>"
    unfolding IPv4Interface_eq by (auto simp: exn_bind_eq_Inr)
  from make_netmask_Inr [OF m] obtain p where p: "p \<le> 32" "n = int p" "nm = prefix_netmask p"
    by blast
  from a have "string_from_ip_int a = addr" by (simp add: IPv4Address_str_Inr)
  with s m p i show ?R unfolding the_iface_def by blast
next
  assume ?R
  then obtain msk a p where s: "split_addr_prefix target = Inr (string_from_ip_int a, msk)"
    and p: "p \<le> 32"
    and m: "make_netmask msk = Inr (prefix_netmask p, int p)"
    and i: "iface = the_iface a p (string_from_ip_int a)"
    by blast
  show ?L
    by (simp add: IPv4Interface_eq s m i the_iface_def IPv4Address_str_string_from_ip_int)
qed

lemma map_exn_all:
  "(\<And>x. x \<in> set xs \<Longrightarrow> f x = Inr (g x)) \<Longrightarrow> map_exn f xs = Inr (map g xs)"
  by (induction xs) simp_all

lemma IPv4Address_int_range:
  "0 \<le> x \<Longrightarrow> x < 2 ^ 32 \<Longrightarrow> IPv4Address_int x = Inr (word_of_int x)"
  by (simp add: IPv4Address_int_def ALL_ONES_def)

lemma hd_upto: "i \<le> j \<Longrightarrow> hd [i..j] = i"
  by (simp add: upto_rec1)

lemma last_upto: "i \<le> j \<Longrightarrow> last [i..j] = j"
  by (simp add: upto_rec2)

section \<open>The result of summarize\<close>

lemma hostmask_the_network: "hostmask (the_network a p addr) = Inr (NOT (prefix_netmask p))"
  by (simp add: hostmask_def the_network_def hostmask_word IPv4Address_int_uint)

lemma broadcast_the_network:
  "broadcast_address (the_network a p addr)
     = Inr ((a AND prefix_netmask p) OR NOT (prefix_netmask p))"
  by (simp add: broadcast_address_def hostmask_the_network)
     (simp add: the_network_def uint_or [symmetric] IPv4Address_int_uint)

lemma num_addresses_the_network:
  "p \<le> 32 \<Longrightarrow> num_addresses (the_network a p addr) = Inr (2 ^ (32 - p))"
  by (simp add: num_addresses_def broadcast_the_network broadcast_uint)
     (simp add: the_network_def)

lemma pow2_ge4: "p \<le> 30 \<Longrightarrow> (4 :: int) \<le> 2 ^ (32 - p)"
proof -
  assume "p \<le> 30"
  then have "(2 :: int) ^ 2 \<le> 2 ^ (32 - p)" by (intro power_increasing) auto
  then show ?thesis by simp
qed

lemma hosts_the_network:
  assumes "p \<le> 30"
  shows "\<exists>hs. hosts (the_network a p addr) = Inr hs
           \<and> int (length hs) = 2 ^ (32 - p) - 2
           \<and> hd hs = (a AND prefix_netmask p) + 1
           \<and> last hs = ((a AND prefix_netmask p) OR NOT (prefix_netmask p)) - 1"
proof -
  define nw where "nw = a AND prefix_netmask p"
  define b where "b = (a AND prefix_netmask p) OR NOT (prefix_netmask p)"
  have p32: "p \<le> 32" using assms by simp
  have ub: "uint b = uint nw + 2 ^ (32 - p) - 1"
    unfolding b_def nw_def using p32 by (rule broadcast_uint)
  have ge: "(4 :: int) \<le> 2 ^ (32 - p)" using assms(1) by (rule pow2_ge4)
  let ?xs = "[uint nw + 1 .. uint b - 1]"
  have rng: "IPv4Address_int x = Inr (word_of_int x)" if "x \<in> set ?xs" for x
  proof -
    from that have x: "uint nw + 1 \<le> x" "x \<le> uint b - 1" by auto
    have "0 \<le> uint nw" by (rule uint_nonnegative)
    with x(1) have "0 \<le> x" by linarith
    moreover have "uint b < 2 ^ 32" using uint_bounded [of b] by simp
    with x(2) have "x < 2 ^ 32" by linarith
    ultimately have "0 \<le> x" "x < 2 ^ 32" by blast+
    then show ?thesis by (rule IPv4Address_int_range)
  qed
  have h: "hosts (the_network a p addr) = Inr (map word_of_int ?xs)"
    using assms(1) map_exn_all [of ?xs IPv4Address_int word_of_int, OF rng]
    by (simp add: hosts_def max_prefixlen_def broadcast_the_network)
       (simp add: the_network_def nw_def b_def)
  have le: "uint nw + 1 \<le> uint b - 1" using ub ge by linarith
  then have ne: "?xs \<noteq> []" by simp
  have len: "int (length (map word_of_int ?xs :: 32 word list)) = 2 ^ (32 - p) - 2"
    using ub ge by simp
  have "hd (map word_of_int ?xs :: 32 word list) = word_of_int (uint nw + 1)"
    using ne le by (simp add: hd_map hd_upto)
  then have hd: "hd (map word_of_int ?xs :: 32 word list) = nw + 1"
    by simp
  have "last (map word_of_int ?xs :: 32 word list) = word_of_int (uint b - 1)"
    using ne le by (simp add: last_map last_upto)
  then have last: "last (map word_of_int ?xs :: 32 word list) = b - 1"
    by simp
  from h len hd last show ?thesis unfolding nw_def b_def by blast
qed

lemma ip_the_iface: "ip (the_iface a p addr) = Inr a"
  by (simp add: ip_def the_iface_def IPv4Address_int_uint)

lemma iface_network_the_iface: "iface_network (the_iface a p addr) = the_network a p addr"
  by (simp add: the_iface_def the_network_def)

lemma py_list_hosts_the_network:
  assumes "p \<le> 30"
  shows "\<exists>hs. hosts (the_network a p addr) = Inr hs
           \<and> py_list mem (hosts (the_network a p addr))
               = (if host_list_fits mem p then Inr hs else Inl MemoryError)
           \<and> int (length hs) = 2 ^ (32 - p) - 2
           \<and> hd hs = (a AND prefix_netmask p) + 1
           \<and> last hs = ((a AND prefix_netmask p) OR NOT (prefix_netmask p)) - 1"
proof -
  from hosts_the_network [OF assms, of a addr] obtain hs where
    hs: "hosts (the_network a p addr) = Inr hs"
    and len: "int (length hs) = 2 ^ (32 - p) - 2"
    and hd: "hd hs = (a AND prefix_netmask p) + 1"
    and last: "last hs = ((a AND prefix_netmask p) OR NOT (prefix_netmask p)) - 1"
    by blast
  have "length hs > mem \<longleftrightarrow> \<not> host_list_fits mem p"
  proof -
    have "length hs > mem \<longleftrightarrow> int mem < int (length hs)" by simp
    also have "\<dots> \<longleftrightarrow> \<not> 2 ^ (32 - p) - 2 \<le> int mem" unfolding len by linarith
    also have "\<dots> \<longleftrightarrow> \<not> host_list_fits mem p"
      using assms by (simp add: host_list_fits_def)
    finally show ?thesis .
  qed
  then have "py_list mem (hosts (the_network a p addr))
               = (if host_list_fits mem p then Inr hs else Inl MemoryError)"
    by (simp add: py_list_def hs)
  with hs len hd last show ?thesis by blast
qed

lemma summarize_the_iface:
  assumes p: "p \<le> 32" and i: "IPv4Interface target = Inr (the_iface a p addr)"
  shows "summarize mem target =
           (if host_list_fits mem p then Inr (summary_of a p) else Inl MemoryError)"
proof (cases "31 \<le> p")
  case True
  then have "31 \<le> int p" by simp
  with True p show ?thesis
    unfolding summarize_def i
    by (simp add: ip_the_iface iface_network_the_iface broadcast_the_network
        num_addresses_the_network Let_def host_list_fits_def)
       (simp add: the_network_def wildcard_word IPv4Address_int_uint summary_of_def Let_def
        str_or_na_def)
next
  case False
  then have p30: "p \<le> 30" by simp
  from py_list_hosts_the_network [OF p30, of a addr mem] obtain hs where
    hs: "py_list mem (hosts (the_network a p addr))
               = (if host_list_fits mem p then Inr hs else Inl MemoryError)"
    and len: "int (length hs) = 2 ^ (32 - p) - 2"
    and hd: "hd hs = (a AND prefix_netmask p) + 1"
    and last: "last hs = ((a AND prefix_netmask p) OR NOT (prefix_netmask p)) - 1"
    by blast
  have pos: "0 < int (length hs)"
    using len pow2_ge4 [OF p30] by linarith
  then have ne: "hs \<noteq> []" by auto
  have np: "\<not> 31 \<le> int p" using False by simp
  have pl: "net_prefixlen (the_network a p addr) = int p"
    and nm: "net_netmask (the_network a p addr) = prefix_netmask p"
    and nw: "net_network_address (the_network a p addr) = a AND prefix_netmask p"
    by (simp_all add: the_network_def)
  show ?thesis
  proof (cases "host_list_fits mem p")
    case True
    then show ?thesis
      unfolding summarize_def i
      using ne np False p
      by (simp add: ip_the_iface iface_network_the_iface broadcast_the_network
          num_addresses_the_network Let_def hs pl nm nw wildcard_word IPv4Address_int_uint
          summary_of_def str_or_na_def hd last len)
  next
    case nf: False
    then show ?thesis
      unfolding summarize_def i
      using np p
      by (simp add: ip_the_iface iface_network_the_iface broadcast_the_network
          num_addresses_the_network Let_def hs pl)
  qed
qed

lemma summarize_Inr:
  "summarize mem target = Inr r \<longleftrightarrow>
     (\<exists>msk a p. split_addr_prefix target = Inr (string_from_ip_int a, msk) \<and> p \<le> 32
        \<and> make_netmask msk = Inr (prefix_netmask p, int p)
        \<and> host_list_fits mem p \<and> r = summary_of a p)"
  (is "?L \<longleftrightarrow> ?R")
proof
  assume l: ?L
  then obtain iface where i: "IPv4Interface target = Inr iface"
    by (cases "IPv4Interface target") (auto simp: summarize_def)
  then obtain msk a p where s: "split_addr_prefix target = Inr (string_from_ip_int a, msk)"
    and p: "p \<le> 32" and m: "make_netmask msk = Inr (prefix_netmask p, int p)"
    and f: "iface = the_iface a p (string_from_ip_int a)"
    unfolding IPv4Interface_Inr by blast
  from summarize_the_iface [OF p i [unfolded f], of mem] l
  have "host_list_fits mem p \<and> r = summary_of a p" by (simp split: if_splits)
  with s p m show ?R by blast
next
  assume ?R
  then obtain msk a p where s: "split_addr_prefix target = Inr (string_from_ip_int a, msk)"
    and p: "p \<le> 32" and m: "make_netmask msk = Inr (prefix_netmask p, int p)"
    and fit: "host_list_fits mem p" and r: "r = summary_of a p"
    by blast
  have "IPv4Interface target = Inr (the_iface a p (string_from_ip_int a))"
    unfolding IPv4Interface_Inr using s p m by blast
  from summarize_the_iface [OF p this, of mem] r fit show ?L by simp
qed

lemma summarize_Inl:
  "summarize mem target = Inl e \<longleftrightarrow>
     (\<exists>e'. IPv4Interface target = Inl e') \<and> e = ValueError (msg_entrada @ target)
     \<or> (\<exists>iface. IPv4Interface target = Inr iface
            \<and> \<not> host_list_fits mem (nat (net_prefixlen (iface_network iface))))
         \<and> e = MemoryError"
proof (cases "IPv4Interface target")
  case (Inl e')
  then show ?thesis by (auto simp: summarize_def)
next
  case (Inr iface)
  then obtain msk a p where p: "p \<le> 32" and f: "iface = the_iface a p (string_from_ip_int a)"
    unfolding IPv4Interface_Inr by blast
  have n: "nat (net_prefixlen (iface_network iface)) = p"
    by (simp add: f the_iface_def)
  from summarize_the_iface [OF p Inr [unfolded f], of mem] Inr n show ?thesis
    by (auto split: if_splits)
qed

lemma str_strip_id: "(\<And>c. c \<in> set s \<Longrightarrow> \<not> isspace c) \<Longrightarrow> str_strip s = s"
proof -
  assume a: "\<And>c. c \<in> set s \<Longrightarrow> \<not> isspace c"
  have d: "dropWhile isspace t = t" if "\<And>c. c \<in> set t \<Longrightarrow> \<not> isspace c" for t
    using that by (cases t) auto
  have "dropWhile isspace s = s" using a by (rule d)
  moreover have "dropWhile isspace (rev s) = rev s" using a by (intro d) auto
  ultimately show ?thesis by (simp add: str_strip_def)
qed

lemma digit_not_space: "48 \<le> (of_char c :: nat) \<Longrightarrow> (of_char c :: nat) \<le> 57 \<Longrightarrow> \<not> isspace c"
  by (auto simp: isspace_def)

lemma str_strip_digits: "digits s \<Longrightarrow> str_strip s = s"
  by (rule str_strip_id) (auto dest: digits_chars simp: digit_not_space)

lemma str_strip_string_from_ip_int: "str_strip (string_from_ip_int a) = string_from_ip_int a"
proof (rule str_strip_id)
  fix c assume "c \<in> set (string_from_ip_int a)"
  then have "(48 \<le> (of_char c :: nat) \<and> (of_char c :: nat) \<le> 57) \<or> c = CHR ''.''"
    by (rule string_from_ip_int_chars)
  then show "\<not> isspace c" by (auto simp: isspace_def)
qed

lemma split_addr_prefix_slash:
  assumes "CHR ''/'' \<notin> set addr" "CHR ''/'' \<notin> set m"
  shows "split_addr_prefix (addr @ ''/'' @ m) = Inr (addr, MaskStr m)"
  using assms
  by (simp add: split_addr_prefix_def split_optional_netmask_def str_split_append str_split_notin)

lemma split_addr_prefix_bare:
  assumes "CHR ''/'' \<notin> set addr"
  shows "split_addr_prefix addr = Inr (addr, MaskInt 32)"
  using assms
  by (simp add: split_addr_prefix_def split_optional_netmask_def str_split_notin max_prefixlen_def)


lemma str_int_no_slash: "0 \<le> n \<Longrightarrow> CHR ''/'' \<notin> set (str_int n)"
  by (simp add: digits_no_slash digits_str_int)

lemma IPv4Interface_cidr:
  assumes "p \<le> 32"
  shows "IPv4Interface (cidr a p) = Inr (the_iface a p (string_from_ip_int a))"
proof -
  have "split_addr_prefix (cidr a p) = Inr (string_from_ip_int a, MaskStr (str_int (int p)))"
    unfolding cidr_def
    by (rule split_addr_prefix_slash) (simp_all add: string_from_ip_int_no_slash str_int_no_slash)
  moreover have "make_netmask (MaskStr (str_int (int p))) = Inr (prefix_netmask p, int p)"
    using assms by (rule make_netmask_str_int)
  ultimately show ?thesis
    unfolding IPv4Interface_Inr using assms by blast
qed

lemma summarize_cidr:
  assumes "p \<le> 32"
  shows "summarize mem (cidr a p) =
           (if host_list_fits mem p then Inr (summary_of a p) else Inl MemoryError)"
  using assms IPv4Interface_cidr [OF assms] by (rule summarize_the_iface)

lemma summarize_bare:
  "summarize mem (string_from_ip_int a) = Inr (summary_of a 32)"
proof -
  have "split_addr_prefix (string_from_ip_int a) = Inr (string_from_ip_int a, MaskInt 32)"
    by (rule split_addr_prefix_bare) (rule string_from_ip_int_no_slash)
  moreover have "make_netmask (MaskInt (int 32)) = Inr (prefix_netmask 32, int 32)"
    by (rule make_netmask_MaskInt) simp
  moreover have "host_list_fits mem 32" by (simp add: host_list_fits_def)
  ultimately show ?thesis
    unfolding summarize_Inr by (intro exI [of _ "MaskInt 32"] exI [of _ a] exI [of _ 32]) simp
qed

lemma str_strip_cidr: "str_strip (cidr a p) = cidr a p"
proof (rule str_strip_id)
  fix c assume "c \<in> set (cidr a p)"
  then have "c \<in> set (string_from_ip_int a) \<or> c = CHR ''/'' \<or> c \<in> set (str_int (int p))"
    by (auto simp: cidr_def)
  moreover have "\<not> isspace c" if "c \<in> set (string_from_ip_int a)"
    using string_from_ip_int_chars [OF that] by (auto simp: isspace_def)
  moreover have "\<not> isspace CHR ''/''" by (simp add: isspace_def)
  moreover have "\<not> isspace c" if "c \<in> set (str_int (int p))"
    using digits_chars [OF digits_str_int that] by (simp add: digit_not_space)
  ultimately show "\<not> isspace c" by blast
qed

lemma slash_in_cidr: "CHR ''/'' \<in> set (cidr a p)"
  by (simp add: cidr_def)

section \<open>The argument parser\<close>

lemma str_split_length: "c \<in> set s \<Longrightarrow> 2 \<le> length (str_split c s)"
proof (induction s)
  case Nil
  then show ?case by simp
next
  case (Cons a s)
  show ?case
  proof (cases "a = c")
    case True
    then show ?thesis
      using str_split_ne [of c s] by (cases "str_split c s") auto
  next
    case False
    with Cons show ?thesis
      by (cases "str_split c s") auto
  qed
qed

lemma zero_address_string: "string_from_ip_int 0 = ''0.0.0.0''"
  by code_simp

lemma IPv4Address_str_zero: "IPv4Address_str ''0.0.0.0'' = Inr 0"
  using IPv4Address_str_string_from_ip_int [of 0] by (simp only: zero_address_string)

lemma IPv4Network_str_zero:
  assumes "CHR ''/'' \<notin> set k"
  shows "IPv4Network_str (''0.0.0.0/'' @ k) True =
           exn_bind (make_netmask (MaskStr k)) (\<lambda>(nm, n).
             Inr \<lparr>net_network_address = 0, net_netmask = nm, net_prefixlen = n,
                  net_addr = ''0.0.0.0''\<rparr>)"
proof -
  have "split_addr_prefix (''0.0.0.0'' @ ''/'' @ k) = Inr (''0.0.0.0'', MaskStr k)"
    using assms by (intro split_addr_prefix_slash) simp_all
  then have s: "split_addr_prefix (''0.0.0.0/'' @ k) = Inr (''0.0.0.0'', MaskStr k)"
    by simp
  show ?thesis
    unfolding IPv4Network_str_def s
    by (cases "make_netmask (MaskStr k)")
       (auto simp: IPv4Network_def IPv4Address_str_zero)
qed

lemma IPv4Network_str_zero_slash:
  assumes "CHR ''/'' \<in> set k"
  shows "\<exists>e. IPv4Network_str (''0.0.0.0/'' @ k) True = Inl e"
proof -
  have "str_split CHR ''/'' (''0.0.0.0'' @ CHR ''/'' # k) = ''0.0.0.0'' # str_split CHR ''/'' k"
    by (rule str_split_append) simp
  moreover have "2 \<le> length (str_split CHR ''/'' k)"
    using assms by (rule str_split_length)
  ultimately have "2 < length (str_split CHR ''/'' (''0.0.0.0/'' @ k))" by simp
  then show ?thesis
    by (simp add: IPv4Network_str_def split_addr_prefix_def split_optional_netmask_def Let_def)
qed

lemma make_netmask_slash:
  assumes "CHR ''/'' \<in> set k"
  shows "\<exists>e. make_netmask (MaskStr k) = Inl e"
proof (cases "make_netmask (MaskStr k)")
  case (Inl e)
  then show ?thesis by blast
next
  case (Inr r)
  obtain nm n where r: "r = (nm, n)" by (cases r)
  from Inr [unfolded r] have
    "(\<exists>n. prefix_from_prefix_string k = Inr n) \<or> (\<exists>n. prefix_from_ip_string k = Inr n)"
    by (auto simp: make_netmask_def exn_bind_eq_Inr split: sum.splits exn.splits)
  then have False
  proof
    assume "\<exists>n. prefix_from_prefix_string k = Inr n"
    then have "digits k" by (auto dest: prefix_from_prefix_string_Inr)
    with assms show False by (simp add: digits_no_slash)
  next
    assume "\<exists>n. prefix_from_ip_string k = Inr n"
    then obtain w where "string_from_ip_int w = k"
      by (auto dest: prefix_from_ip_string_Inr)
    with assms show False by (auto simp: string_from_ip_int_no_slash)
  qed
  then show ?thesis ..
qed

text \<open>What \<^const>\<open>parse_input\<close> does with two arguments.\<close>

lemma parse_input_two:
  "parse_input [x, m] =
     (if str_startswith (str_strip m) ''/'' then Inr (str_strip x @ str_strip m)
      else (case make_netmask (MaskStr (str_strip m)) of
              Inr (nm, n) \<Rightarrow> Inr (str_strip x @ ''/'' @ str_int n)
            | Inl e \<Rightarrow> Inl (ValueError (msg_mascara @ str_strip m))))"
proof (cases "str_startswith (str_strip m) ''/''")
  case True
  then show ?thesis by (simp add: parse_input_def Let_def)
next
  case False
  show ?thesis
  proof (cases "CHR ''/'' \<in> set (str_strip m)")
    case True
    from IPv4Network_str_zero_slash [OF True] make_netmask_slash [OF True] False
    show ?thesis
      by (auto simp: parse_input_def Let_def)
  next
    case nsl: False
    have z: "IPv4Network_str (''0.0.0.0/'' @ str_strip m) True =
           exn_bind (make_netmask (MaskStr (str_strip m))) (\<lambda>(nm, n).
             Inr \<lparr>net_network_address = 0, net_netmask = nm, net_prefixlen = n,
                  net_addr = ''0.0.0.0''\<rparr>)"
      using nsl by (rule IPv4Network_str_zero)
    show ?thesis
    proof (cases "make_netmask (MaskStr (str_strip m))")
      case (Inl e)
      with False show ?thesis
        unfolding parse_input_def Let_def by (simp add: z del: append.simps)
    next
      case (Inr r)
      obtain nm n where r: "r = (nm, n)" by (cases r)
      with False Inr show ?thesis
        unfolding parse_input_def Let_def by (simp add: z del: append.simps)
    qed
  qed
qed

lemma parse_input_error_is_ValueError:
  "parse_input argv = Inl e \<Longrightarrow> \<exists>msg. e = ValueError msg"
  by (auto simp: parse_input_def Let_def split: if_splits sum.splits)

lemma main_error_cases:
  "exn_bind (parse_input args) (summarize mem) = Inl e
     \<Longrightarrow> (\<exists>msg. e = ValueError msg) \<or> e = MemoryError"
  by (cases "parse_input args")
     (auto dest: parse_input_error_is_ValueError simp: summarize_Inl)

lemma parse_input_many: "2 < length args \<Longrightarrow> parse_input args = Inl (ValueError msg_use)"
  by (simp add: parse_input_def)

lemma parse_input_one:
  "parse_input [s] = (if CHR ''/'' \<in> set (str_strip s) then Inr (str_strip s)
                      else Inl (ValueError msg_formato))"
  by (simp add: parse_input_def Let_def)

lemma parse_input_cidr: "parse_input [cidr a p] = Inr (cidr a p)"
  by (simp add: parse_input_one str_strip_cidr slash_in_cidr)

lemma main_cidr: "main mem [prog, cidr a p] =
    (case summarize mem (cidr a p) of
       Inr out \<Rightarrow> (pretty_print out, 0)
     | Inl e \<Rightarrow> ([''Erro: '' @ exn_str e], 2))"
  by (simp add: main_def parse_input_cidr)

section \<open>The subnet of an address and a prefix length\<close>

lemma usable_no_wrap:
  assumes "p \<le> 30"
  shows "uint ((a AND prefix_netmask p) + 1) = uint (a AND prefix_netmask p) + 1"
    and "uint (((a AND prefix_netmask p) OR NOT (prefix_netmask p)) - 1)
           = uint ((a AND prefix_netmask p) OR NOT (prefix_netmask p)) - 1"
proof -
  let ?nw = "a AND prefix_netmask p"
  let ?b = "?nw OR NOT (prefix_netmask p)"
  have ub: "uint ?b = uint ?nw + 2 ^ (32 - p) - 1"
    using assms by (intro broadcast_uint) simp
  have ge: "(4 :: int) \<le> 2 ^ (32 - p)" using assms by (rule pow2_ge4)
  have b32: "uint ?b < 2 ^ 32" using uint_bounded [of ?b] by simp
  have nn: "0 \<le> uint ?nw" by (rule uint_nonnegative)
  have "uint ?nw + 1 < 2 ^ 32"
    using ub ge b32 by linarith
  then show "uint (?nw + 1) = uint ?nw + 1"
    using uint_add_lem [of ?nw 1] by simp
  have "1 \<le> uint ?b"
    using ub ge nn by linarith
  then have "uint (1 :: 32 word) \<le> uint ?b" by simp
  then show "uint (?b - 1) = uint ?b - 1"
    using uint_sub_lem [of 1 ?b] by simp
qed

text \<open>
  When the host list fits in memory, the usable range of a prefix length up to 30 is
  the one of the direct formulas, and neither sum wraps around.
\<close>

lemma usable_range_when_fits:
  assumes "p \<le> 30" and "2 ^ (32 - p) - 2 \<le> int mem"
  shows "\<exists>r. summarize mem (cidr a p) = Inr r
           \<and> total_addresses r = 2 ^ (32 - p)
           \<and> num_usable r = total_addresses r - 2
           \<and> network_address r = string_from_ip_int (a AND prefix_netmask p)
           \<and> broadcast r = string_from_ip_int ((a AND prefix_netmask p) OR NOT (prefix_netmask p))
           \<and> first_usable r = string_from_ip_int ((a AND prefix_netmask p) + 1)
           \<and> last_usable r
                = string_from_ip_int (((a AND prefix_netmask p) OR NOT (prefix_netmask p)) - 1)
           \<and> gateway_suggestion r = first_usable r
           \<and> uint ((a AND prefix_netmask p) + 1) = uint (a AND prefix_netmask p) + 1
           \<and> uint (((a AND prefix_netmask p) OR NOT (prefix_netmask p)) - 1)
                = uint ((a AND prefix_netmask p) OR NOT (prefix_netmask p)) - 1"
proof -
  from assms(1) have "p \<le> 32" by simp
  moreover from assms(2) have "host_list_fits mem p" by (simp add: host_list_fits_def)
  ultimately have "summarize mem (cidr a p) = Inr (summary_of a p)"
    by (simp add: summarize_cidr)
  moreover from assms(1) have "\<not> 31 \<le> p" by simp
  ultimately show ?thesis
    using usable_no_wrap [OF assms(1), of a] by (simp add: summary_of_def Let_def)
qed

text \<open>
  Claim C1. The claim promises, for every address and every prefix length from 0 to 30,
  that \<^const>\<open>summarize\<close> reports the usable range of the direct formulas. The code
  derives the range from \<^verbatim>\<open>list(network.hosts())\<close>, a list of \<open>2 ^ (32 - p) - 2\<close>
  address objects. On a machine whose lists hold fewer elements than that,
  \<^const>\<open>summarize\<close> raises \<^verbatim>\<open>MemoryError\<close> and reports nothing, and the script
  prints \<open>Erro: \<close> and exits with code 2.
\<close>

theorem C1_host_list_out_of_memory:
  assumes "p \<le> 30" and "int mem < 2 ^ (32 - p) - 2"
  shows "summarize mem (cidr a p) = Inl MemoryError
       \<and> main mem [prog, cidr a p] = ([''Erro: ''], 2)"
proof -
  from assms have "\<not> host_list_fits mem p" by (simp add: host_list_fits_def)
  moreover from assms(1) have "p \<le> 32" by simp
  ultimately have s: "summarize mem (cidr a p) = Inl MemoryError"
    by (simp add: summarize_cidr)
  then show ?thesis by (simp add: main_cidr)
qed

theorem C1_host_list_out_of_memory_witness:
  "summarize 1000000 ''10.0.0.1/0'' = Inl MemoryError
   \<and> main 1000000 [''ipcalc.py'', ''10.0.0.1/0''] = ([''Erro: ''], 2)"
proof -
  have e: "cidr 0x0A000001 0 = ''10.0.0.1/0''" by code_simp
  have h1: "(0 :: nat) \<le> 30" by simp
  have h2: "int 1000000 < 2 ^ (32 - 0) - 2" by simp
  from C1_host_list_out_of_memory [OF h1 h2, of "0x0A000001" "''ipcalc.py''"] show ?thesis
    unfolding e .
qed

text \<open>
  Claim C2. For every address \<open>a\<close> and for the prefix lengths 31 and 32,
  \<^const>\<open>summarize\<close> on \<open>a/p\<close> succeeds, whatever the memory, reports
  \<open>num_usable = 0\<close> and renders \<open>first_usable\<close>, \<open>last_usable\<close> and
  \<open>gateway_suggestion\<close> as \<open>N/A\<close>.
\<close>

theorem C2_point_to_point_and_host:
  assumes "p = 31 \<or> p = 32"
  shows "\<exists>r. summarize mem (cidr a p) = Inr r
           \<and> num_usable r = 0
           \<and> first_usable r = ''N/A''
           \<and> last_usable r = ''N/A''
           \<and> gateway_suggestion r = ''N/A''"
proof -
  from assms have "p \<le> 32" and "31 \<le> p" by auto
  then have "summarize mem (cidr a p) = Inr (summary_of a p)"
    by (simp add: summarize_cidr host_list_fits_def)
  with \<open>31 \<le> p\<close> show ?thesis by (simp add: summary_of_def Let_def)
qed

theorem C2_point_to_point_and_host_witness:
  "\<exists>r. summarize 0 ''192.168.1.1/31'' = Inr r
      \<and> num_usable r = 0
      \<and> first_usable r = ''N/A'' \<and> last_usable r = ''N/A'' \<and> gateway_suggestion r = ''N/A''"
proof -
  have e: "cidr 0xC0A80101 31 = ''192.168.1.1/31''" by code_simp
  have h: "(31 :: nat) = 31 \<or> (31 :: nat) = 32" by simp
  from C2_point_to_point_and_host [OF h, of 0 "0xC0A80101"] show ?thesis
    unfolding e .
qed

lemma IPv4Interface_cidr_fields:
  assumes "p \<le> 32"
  shows "\<exists>iface. IPv4Interface (cidr a p) = Inr iface
           \<and> ip iface = Inr a
           \<and> net_prefixlen (iface_network iface) = int p
           \<and> net_netmask (iface_network iface) = prefix_netmask p
           \<and> net_network_address (iface_network iface) = a AND prefix_netmask p
           \<and> hostmask (iface_network iface) = Inr (NOT (prefix_netmask p))
           \<and> broadcast_address (iface_network iface)
                = Inr ((a AND prefix_netmask p) OR NOT (prefix_netmask p))
           \<and> num_addresses (iface_network iface) = Inr (2 ^ (32 - p))"
proof -
  let ?i = "the_iface a p (string_from_ip_int a)"
  have n: "iface_network ?i = the_network a p (string_from_ip_int a)"
    by (rule iface_network_the_iface)
  have "IPv4Interface (cidr a p) = Inr ?i" using assms by (rule IPv4Interface_cidr)
  moreover have "ip ?i = Inr a" by (rule ip_the_iface)
  moreover have "net_prefixlen (iface_network ?i) = int p"
    "net_netmask (iface_network ?i) = prefix_netmask p"
    "net_network_address (iface_network ?i) = a AND prefix_netmask p"
    by (simp_all add: the_iface_def)
  moreover have "hostmask (iface_network ?i) = Inr (NOT (prefix_netmask p))"
    unfolding n by (rule hostmask_the_network)
  moreover have "broadcast_address (iface_network ?i)
                = Inr ((a AND prefix_netmask p) OR NOT (prefix_netmask p))"
    unfolding n by (rule broadcast_the_network)
  moreover have "num_addresses (iface_network ?i) = Inr (2 ^ (32 - p))"
    unfolding n using assms by (rule num_addresses_the_network)
  ultimately show ?thesis by blast
qed

lemma summarize_cidr_Inr:
  assumes "p \<le> 32" "summarize mem (cidr a p) = Inr r"
  shows "r = summary_of a p"
  using assms by (simp add: summarize_cidr split: if_splits)

text \<open>
  Claim C5. For every address \<open>a\<close> (its host bits need not be zero) and every prefix
  length \<open>p\<close> from 0 to 32, the interface that \<^const>\<open>summarize\<close> builds from \<open>a/p\<close>
  has the netmask that \<^const>\<open>ip_int_from_prefix\<close> computes, the network address
  \<open>a AND netmask\<close> and the broadcast address \<open>network OR wildcard\<close>, with
  \<open>network \<le> a \<le> broadcast\<close> as unsigned 32-bit values. Every dictionary that
  \<^const>\<open>summarize\<close> returns for \<open>a/p\<close> reports these values, and it returns one
  whenever the host list fits in memory.
\<close>

theorem C5_address_within_subnet:
  assumes "p \<le> 32"
  shows "\<exists>iface. IPv4Interface (cidr a p) = Inr iface
           \<and> ip iface = Inr a
           \<and> net_netmask (iface_network iface) = prefix_netmask p
           \<and> uint (prefix_netmask p) = ip_int_from_prefix (int p)
           \<and> hostmask (iface_network iface) = Inr (NOT (prefix_netmask p))
           \<and> net_network_address (iface_network iface) = a AND prefix_netmask p
           \<and> broadcast_address (iface_network iface)
                = Inr ((a AND prefix_netmask p) OR NOT (prefix_netmask p))
           \<and> a AND prefix_netmask p \<le> a
           \<and> a \<le> (a AND prefix_netmask p) OR NOT (prefix_netmask p)
           \<and> (\<forall>mem r. summarize mem (cidr a p) = Inr r \<longrightarrow>
                  input_ip r = string_from_ip_int a
                  \<and> netmask r = string_from_ip_int (prefix_netmask p)
                  \<and> wildcard r = string_from_ip_int (NOT (prefix_netmask p))
                  \<and> network_address r = string_from_ip_int (a AND prefix_netmask p)
                  \<and> broadcast r
                       = string_from_ip_int ((a AND prefix_netmask p) OR NOT (prefix_netmask p)))
           \<and> (\<forall>mem. host_list_fits mem p \<longrightarrow> (\<exists>r. summarize mem (cidr a p) = Inr r))"
proof -
  from IPv4Interface_cidr_fields [OF assms, of a] obtain iface where
    i: "IPv4Interface (cidr a p) = Inr iface" "ip iface = Inr a"
      "net_netmask (iface_network iface) = prefix_netmask p"
      "net_network_address (iface_network iface) = a AND prefix_netmask p"
      "hostmask (iface_network iface) = Inr (NOT (prefix_netmask p))"
      "broadcast_address (iface_network iface)
         = Inr ((a AND prefix_netmask p) OR NOT (prefix_netmask p))"
    by blast
  have r: "input_ip r = string_from_ip_int a
         \<and> netmask r = string_from_ip_int (prefix_netmask p)
         \<and> wildcard r = string_from_ip_int (NOT (prefix_netmask p))
         \<and> network_address r = string_from_ip_int (a AND prefix_netmask p)
         \<and> broadcast r = string_from_ip_int ((a AND prefix_netmask p) OR NOT (prefix_netmask p))"
    if "summarize mem (cidr a p) = Inr r" for mem r
    using summarize_cidr_Inr [OF assms that] by (simp add: summary_of_def Let_def)
  have t: "\<exists>r. summarize mem (cidr a p) = Inr r" if "host_list_fits mem p" for mem
    using that assms by (simp add: summarize_cidr)
  from i r t netmask_and_le [of a p] netmask_or_ge [of a p] ip_int_from_prefix_word [of p]
  show ?thesis by (intro exI [of _ iface]) simp
qed

theorem C5_address_within_subnet_witness:
  "\<exists>iface r. IPv4Interface ''10.0.0.2/30'' = Inr iface
      \<and> ip iface = Inr 0x0A000002
      \<and> net_network_address (iface_network iface) = 0x0A000000
      \<and> broadcast_address (iface_network iface) = Inr 0x0A000003
      \<and> (0x0A000000 :: 32 word) \<le> 0x0A000002 \<and> (0x0A000002 :: 32 word) \<le> 0x0A000003
      \<and> summarize 2 ''10.0.0.2/30'' = Inr r
      \<and> input_ip r = ''10.0.0.2'' \<and> netmask r = ''255.255.255.252''
      \<and> wildcard r = ''0.0.0.3''
      \<and> network_address r = ''10.0.0.0'' \<and> broadcast r = ''10.0.0.3''"
proof -
  have e: "cidr 0x0A000002 30 = ''10.0.0.2/30''"
    "string_from_ip_int 0x0A000002 = ''10.0.0.2''"
    "string_from_ip_int (prefix_netmask 30) = ''255.255.255.252''"
    "string_from_ip_int (NOT (prefix_netmask 30)) = ''0.0.0.3''"
    "string_from_ip_int (0x0A000002 AND prefix_netmask 30) = ''10.0.0.0''"
    "string_from_ip_int ((0x0A000002 AND prefix_netmask 30) OR NOT (prefix_netmask 30))
       = ''10.0.0.3''"
    by code_simp+
  have w1: "(0x0A000002 AND prefix_netmask 30) OR NOT (prefix_netmask 30) = 0x0A000003"
    by code_simp
  have w2: "0x0A000002 AND prefix_netmask 30 = 0x0A000000"
    by code_simp
  have c: "(0x0A000000 :: 32 word) \<le> 0x0A000002" "(0x0A000002 :: 32 word) \<le> 0x0A000003"
    by code_simp+
  have f: "host_list_fits 2 30" by code_simp
  have h: "(30 :: nat) \<le> 32" by simp
  from C5_address_within_subnet [OF h, of "0x0A000002", unfolded e, unfolded w1, unfolded w2]
  obtain iface where i: "IPv4Interface ''10.0.0.2/30'' = Inr iface"
      "ip iface = Inr 0x0A000002"
      "net_network_address (iface_network iface) = 0x0A000000"
      "broadcast_address (iface_network iface) = Inr 0x0A000003"
    and r: "\<forall>mem r. summarize mem ''10.0.0.2/30'' = Inr r \<longrightarrow>
              input_ip r = ''10.0.0.2'' \<and> netmask r = ''255.255.255.252''
              \<and> wildcard r = ''0.0.0.3''
              \<and> network_address r = ''10.0.0.0'' \<and> broadcast r = ''10.0.0.3''"
    and t: "\<forall>mem. host_list_fits mem 30 \<longrightarrow> (\<exists>r. summarize mem ''10.0.0.2/30'' = Inr r)"
    by blast
  from t f obtain r' where s: "summarize 2 ''10.0.0.2/30'' = Inr r'" by blast
  from r s have "input_ip r' = ''10.0.0.2'' \<and> netmask r' = ''255.255.255.252''
              \<and> wildcard r' = ''0.0.0.3''
              \<and> network_address r' = ''10.0.0.0'' \<and> broadcast r' = ''10.0.0.3''"
    by blast
  with i c s show ?thesis by blast
qed

text \<open>
  Claim C6. For every prefix length \<open>p\<close> from 0 to 32 the library computes the number
  of addresses \<open>2 ^ (32 - p)\<close> on unbounded integers, 4294967296 for \<open>p = 0\<close>, and every
  dictionary that \<^const>\<open>summarize\<close> returns reports it. The claim says that it is
  reported for \<open>p = 0\<close> too; there \<^const>\<open>summarize\<close> builds the list of the
  4294967294 hosts first, and on a machine whose lists hold fewer elements it raises
  \<^verbatim>\<open>MemoryError\<close> and reports no total.
\<close>

theorem C6_total_addresses:
  assumes "p \<le> 32"
  shows "\<exists>iface. IPv4Interface (cidr a p) = Inr iface
           \<and> num_addresses (iface_network iface) = Inr (2 ^ (32 - p))
           \<and> (\<forall>mem r. summarize mem (cidr a p) = Inr r \<longrightarrow> total_addresses r = 2 ^ (32 - p))
           \<and> (\<forall>mem. host_list_fits mem p \<longrightarrow> (\<exists>r. summarize mem (cidr a p) = Inr r))
           \<and> (\<forall>mem. \<not> host_list_fits mem p \<longrightarrow> summarize mem (cidr a p) = Inl MemoryError)"
proof -
  from IPv4Interface_cidr_fields [OF assms, of a] obtain iface where
    i: "IPv4Interface (cidr a p) = Inr iface"
      "num_addresses (iface_network iface) = Inr (2 ^ (32 - p))"
    by blast
  have r: "total_addresses r = 2 ^ (32 - p)" if "summarize mem (cidr a p) = Inr r" for mem r
    using summarize_cidr_Inr [OF assms that] by (simp add: summary_of_def Let_def)
  have t: "\<exists>r. summarize mem (cidr a p) = Inr r" if "host_list_fits mem p" for mem
    using that assms by (simp add: summarize_cidr)
  have f: "summarize mem (cidr a p) = Inl MemoryError" if "\<not> host_list_fits mem p" for mem
    using that assms by (simp add: summarize_cidr)
  from i r t f show ?thesis by (intro exI [of _ iface]) simp
qed

theorem C6_total_addresses_witness:
  "\<exists>iface. IPv4Interface ''10.0.0.1/0'' = Inr iface
      \<and> num_addresses (iface_network iface) = Inr 4294967296
      \<and> summarize 1000000 ''10.0.0.1/0'' = Inl MemoryError"
proof -
  have e: "cidr 0x0A000001 0 = ''10.0.0.1/0''" by code_simp
  have f: "\<not> host_list_fits 1000000 0" by (simp add: host_list_fits_def)
  have h: "(0 :: nat) \<le> 32" by simp
  have n: "(2 :: int) ^ (32 - 0) = 4294967296" by simp
  from C6_total_addresses [OF h, of "0x0A000001", unfolded e, unfolded n]
  obtain iface where i: "IPv4Interface ''10.0.0.1/0'' = Inr iface"
      "num_addresses (iface_network iface) = Inr 4294967296"
    and t: "\<forall>mem. \<not> host_list_fits mem 0 \<longrightarrow> summarize mem ''10.0.0.1/0'' = Inl MemoryError"
    by blast
  from t f have "summarize 1000000 ''10.0.0.1/0'' = Inl MemoryError" by blast
  with i show ?thesis by blast
qed



section \<open>Masks given as the second argument\<close>

lemma str_startswith_slash: "str_startswith s ''/'' \<Longrightarrow> CHR ''/'' \<in> set s"
  by (cases s) (auto simp: str_startswith_def)

lemma dot_in_string_from_ip_int: "CHR ''.'' \<in> set (string_from_ip_int w)"
proof -
  obtain b1 b2 b3 b4 where "to_bytes w = [b1, b2, b3, b4]"
    using to_bytes_eq [of w] by blast
  then show ?thesis by (simp add: string_from_ip_int_def)
qed

lemma prefix_from_prefix_string_dotted:
  "prefix_from_prefix_string (string_from_ip_int w) = Inl NetmaskValueError"
proof -
  have "\<not> digits (string_from_ip_int w)"
    using dot_in_string_from_ip_int [of w] digits_no_dot by blast
  then show ?thesis
    by (simp add: prefix_from_prefix_string_def ascii_isdigit_iff)
qed

lemma make_netmask_netmask:
  assumes "p \<le> 32"
  shows "make_netmask (MaskStr (string_from_ip_int (prefix_netmask p)))
           = Inr (prefix_netmask p, int p)"
proof -
  have "is_netmask (prefix_netmask p)" using assms by (auto simp: is_netmask_iff)
  then show ?thesis
    using assms
    by (simp add: make_netmask_def prefix_from_prefix_string_dotted prefix_from_ip_string_word
        prefix_from_ip_int_netmask IPv4Address_int_prefix)
qed

lemma make_netmask_hostmask:
  assumes "p \<le> 32" "\<not> is_netmask w" "NOT w = prefix_netmask p"
  shows "make_netmask (MaskStr (string_from_ip_int w)) = Inr (prefix_netmask p, int p)"
proof -
  have "is_netmask (NOT w)" using assms by (auto simp: is_netmask_iff)
  moreover have "prefix_from_ip_int (uint (NOT w)) = Inr (int p)"
    unfolding assms(3) using assms(1) by (rule prefix_from_ip_int_netmask)
  ultimately show ?thesis
    using assms(2)
    by (simp add: make_netmask_def prefix_from_prefix_string_dotted prefix_from_ip_string_word
        IPv4Address_int_prefix)
qed

lemma make_netmask_invalid:
  assumes "\<not> is_netmask w" "\<not> is_netmask (NOT w)"
  shows "make_netmask (MaskStr (string_from_ip_int w)) = Inl NetmaskValueError"
  using assms
  by (simp add: make_netmask_def prefix_from_prefix_string_dotted prefix_from_ip_string_word)

lemma parse_input_dotted:
  "parse_input [x, string_from_ip_int w] =
     (case make_netmask (MaskStr (string_from_ip_int w)) of
        Inr (nm, n) \<Rightarrow> Inr (str_strip x @ ''/'' @ str_int n)
      | Inl e \<Rightarrow> Inl (ValueError (msg_mascara @ string_from_ip_int w)))"
proof -
  have "\<not> str_startswith (string_from_ip_int w) ''/''"
    using str_startswith_slash string_from_ip_int_no_slash by blast
  then show ?thesis
    by (simp add: parse_input_two str_strip_string_from_ip_int split: sum.splits)
qed

text \<open>
  Claim C3 says that every dotted-decimal mask whose value is not of the form
  \<open>1\<^sup>n 0\<^sup>3\<^sup>2\<^sup>-\<^sup>n\<close> is rejected, and names \<open>0.0.0.255\<close> as such a mask. The library
  reads a mask that is not a netmask as a hostmask too: \<open>0.0.0.255\<close> has the value 255,
  which is not of that form, and is accepted as the prefix length 24.
\<close>

theorem C3_counterexample:
  "ip_int_from_string ''0.0.0.255'' = Inr (uint (255 :: 32 word))
   \<and> \<not> is_netmask 255
   \<and> parse_input [''10.0.0.1'', ''0.0.0.255''] = Inr ''10.0.0.1/24''"
proof -
  have e: "string_from_ip_int 255 = ''0.0.0.255''" by code_simp
  have n: "\<not> is_netmask 255" by code_simp
  have h: "NOT (255 :: 32 word) = prefix_netmask 24" by code_simp
  have s: "str_strip ''10.0.0.1'' @ ''/'' @ str_int (int 24) = ''10.0.0.1/24''" by code_simp
  have le: "(24 :: nat) \<le> 32" by simp
  have "ip_int_from_string ''0.0.0.255'' = Inr (uint (255 :: 32 word))"
    using ip_int_from_string_string_from_ip_int [of 255] by (simp only: e)
  moreover have "parse_input [''10.0.0.1'', string_from_ip_int 255] = Inr ''10.0.0.1/24''"
    unfolding parse_input_dotted make_netmask_hostmask [OF le n h] using s by simp
  ultimately show ?thesis using n by (simp only: e) simp
qed

text \<open>
  Claim C3, amended. Let the second argument, stripped, be a dotted-decimal string of
  the 32-bit value \<open>w\<close>. If \<open>w\<close> is neither of the form \<open>1\<^sup>n 0\<^sup>3\<^sup>2\<^sup>-\<^sup>n\<close> nor of the form
  \<open>0\<^sup>n 1\<^sup>3\<^sup>2\<^sup>-\<^sup>n\<close> (its complement is not of the first form), \<^const>\<open>parse_input\<close> fails
  with the mask error and yields no prefix length. If \<open>w\<close> is not of the first form
  but its complement is the netmask of \<open>p\<close>, the mask is accepted as the prefix length
  \<open>p\<close>.
\<close>

theorem C3_noncontiguous_mask:
  assumes "ip_int_from_string (str_strip m) = Inr (uint w)"
  shows "(\<not> is_netmask w \<and> \<not> is_netmask (NOT w)
            \<longrightarrow> parse_input [x, m] = Inl (ValueError (msg_mascara @ str_strip m)))
       \<and> (\<forall>p\<le>32. \<not> is_netmask w \<and> NOT w = prefix_netmask p
            \<longrightarrow> parse_input [x, m] = Inr (str_strip x @ ''/'' @ str_int (int p)))"
proof -
  from assms obtain wa where "uint w = uint wa" "string_from_ip_int wa = str_strip m"
    unfolding ip_int_from_string_word by blast
  moreover from this have "w = wa" by (simp add: word_uint_eq_iff)
  ultimately have k: "str_strip m = string_from_ip_int w" by simp
  have ns: "\<not> str_startswith (string_from_ip_int w) ''/''"
    using str_startswith_slash string_from_ip_int_no_slash by blast
  have p: "parse_input [x, m] =
     (case make_netmask (MaskStr (string_from_ip_int w)) of
        Inr (nm, n) \<Rightarrow> Inr (str_strip x @ ''/'' @ str_int n)
      | Inl e \<Rightarrow> Inl (ValueError (msg_mascara @ string_from_ip_int w)))"
    using ns by (simp add: parse_input_two k split: sum.splits)
  show ?thesis
    unfolding p k by (auto simp: make_netmask_invalid make_netmask_hostmask)
qed

theorem C3_noncontiguous_mask_witness:
  "parse_input [''10.0.0.1'', ''255.0.255.0'']
     = Inl (ValueError (msg_mascara @ ''255.0.255.0''))
   \<and> parse_input [''10.0.0.1'', ''0.0.0.3''] = Inr ''10.0.0.1/30''"
proof -
  have e: "string_from_ip_int 0xFF00FF00 = ''255.0.255.0''" by code_simp
  have s: "str_strip ''255.0.255.0'' = ''255.0.255.0''" by code_simp
  have n: "\<not> is_netmask 0xFF00FF00 \<and> \<not> is_netmask (NOT 0xFF00FF00)" by code_simp
  have h: "ip_int_from_string (str_strip ''255.0.255.0'') = Inr (uint (0xFF00FF00 :: 32 word))"
    using ip_int_from_string_string_from_ip_int [of "0xFF00FF00"] by (simp only: e s)
  from C3_noncontiguous_mask [OF h, of "''10.0.0.1''"] n
  have 1: "parse_input [''10.0.0.1'', ''255.0.255.0'']
             = Inl (ValueError (msg_mascara @ ''255.0.255.0''))"
    by (simp only: s) simp
  have e': "string_from_ip_int 3 = ''0.0.0.3''" by code_simp
  have s': "str_strip ''0.0.0.3'' = ''0.0.0.3''" by code_simp
  have n': "\<not> is_netmask 3 \<and> NOT (3 :: 32 word) = prefix_netmask 30" by code_simp
  have r': "str_strip ''10.0.0.1'' @ ''/'' @ str_int (int 30) = ''10.0.0.1/30''" by code_simp
  have h': "ip_int_from_string (str_strip ''0.0.0.3'') = Inr (uint (3 :: 32 word))"
    using ip_int_from_string_string_from_ip_int [of 3] by (simp only: e' s')
  have le: "(30 :: nat) \<le> 32" by simp
  from C3_noncontiguous_mask [OF h', of "''10.0.0.1''", THEN conjunct2, rule_format, OF le n']
  have "parse_input [''10.0.0.1'', ''0.0.0.3'']
          = Inr (str_strip ''10.0.0.1'' @ ''/'' @ str_int (int 30))" .
  then have 2: "parse_input [''10.0.0.1'', ''0.0.0.3''] = Inr ''10.0.0.1/30''"
    by (simp only: r')
  from 1 2 show ?thesis ..
qed

text \<open>
  Claim C8. Let \<open>M\<close> be a dotted-decimal mask that the library parses to a value
  \<open>w\<close> of the form \<open>1\<^sup>n 0\<^sup>3\<^sup>2\<^sup>-\<^sup>n\<close>. Then \<^const>\<open>make_netmask\<close> normalises \<open>M\<close> to
  a prefix length \<open>n\<close> whose netmask renders as \<open>M\<close> again; \<^const>\<open>parse_input\<close>
  turns the arguments \<open>a\<close> and \<open>M\<close> into the target \<open>a/n\<close>; the interface of that
  target has a netmask that renders as \<open>M\<close>, and every dictionary that
  \<^const>\<open>summarize\<close> returns for the target reports the netmask \<open>M\<close>; it returns one
  whenever the host list fits in memory.
\<close>

theorem C8_mask_round_trip:
  assumes "ip_int_from_string M = Inr (uint w)" and "is_netmask w"
  shows "\<exists>n\<le>32. \<exists>nm iface.
           make_netmask (MaskStr M) = Inr (nm, int n)
           \<and> string_from_ip_int nm = M
           \<and> uint nm = ip_int_from_prefix (int n)
           \<and> parse_input [string_from_ip_int a, M] = Inr (cidr a n)
           \<and> IPv4Interface (cidr a n) = Inr iface
           \<and> string_from_ip_int (net_netmask (iface_network iface)) = M
           \<and> (\<forall>mem r. summarize mem (cidr a n) = Inr r \<longrightarrow> netmask r = M)
           \<and> (\<forall>mem. host_list_fits mem n \<longrightarrow>
                  (\<exists>r. summarize mem (cidr a n) = Inr r \<and> netmask r = M))"
proof -
  from assms(1) obtain wa where "uint w = uint wa" "string_from_ip_int wa = M"
    unfolding ip_int_from_string_word by blast
  moreover from this have "w = wa" by (simp add: word_uint_eq_iff)
  ultimately have M: "M = string_from_ip_int w" by simp
  from assms(2) obtain n where n: "n \<le> 32" "w = prefix_netmask n"
    by (auto simp: is_netmask_iff)
  have mk: "make_netmask (MaskStr M) = Inr (prefix_netmask n, int n)"
    unfolding M n(2) using n(1) by (rule make_netmask_netmask)
  have pi: "parse_input [string_from_ip_int a, M] = Inr (cidr a n)"
    unfolding M parse_input_dotted
    using mk by (simp add: M cidr_def str_strip_string_from_ip_int)
  from IPv4Interface_cidr_fields [OF n(1), of a] obtain iface where
    i: "IPv4Interface (cidr a n) = Inr iface"
      "net_netmask (iface_network iface) = prefix_netmask n"
    by blast
  have st: "string_from_ip_int (prefix_netmask n) = M" by (simp add: M n(2))
  have nmM: "netmask (summary_of a n) = M"
    by (simp add: summary_of_def Let_def M n(2))
  have r: "netmask r = M" if "summarize mem (cidr a n) = Inr r" for mem r
    using summarize_cidr_Inr [OF n(1) that] nmM by simp
  have t: "\<exists>r. summarize mem (cidr a n) = Inr r \<and> netmask r = M"
    if "host_list_fits mem n" for mem
    using that n(1) nmM by (simp add: summarize_cidr)
  have im: "string_from_ip_int (net_netmask (iface_network iface)) = M"
    unfolding i(2) by (rule st)
  have u: "uint (prefix_netmask n) = ip_int_from_prefix (int n)"
    by (rule ip_int_from_prefix_word [symmetric])
  from n(1) mk st u pi i(1) im r t show ?thesis by blast
qed

theorem C8_mask_round_trip_witness:
  "\<exists>r. parse_input [''10.0.0.2'', ''255.255.255.252''] = Inr ''10.0.0.2/30''
      \<and> summarize 2 ''10.0.0.2/30'' = Inr r
      \<and> netmask r = ''255.255.255.252''"
proof -
  have e: "string_from_ip_int 0xFFFFFFFC = ''255.255.255.252''"
    "string_from_ip_int 0x0A000002 = ''10.0.0.2''"
    by code_simp+
  have c: "cidr 0x0A000002 30 = ''10.0.0.2/30''" by code_simp
  have w: "prefix_netmask 30 = 0xFFFFFFFC" by code_simp
  have f: "host_list_fits 2 30" by code_simp
  have h1: "ip_int_from_string ''255.255.255.252'' = Inr (uint (0xFFFFFFFC :: 32 word))"
    using ip_int_from_string_string_from_ip_int [of "0xFFFFFFFC"] by (simp only: e)
  have h2: "is_netmask 0xFFFFFFFC" by code_simp
  from C8_mask_round_trip [OF h1 h2, of "0x0A000002"] obtain n nm where
    n: "n \<le> 32" and mk: "make_netmask (MaskStr ''255.255.255.252'') = Inr (nm, int n)"
    and pi: "parse_input [string_from_ip_int 0x0A000002, ''255.255.255.252'']
               = Inr (cidr 0x0A000002 n)"
    and t: "\<forall>mem. host_list_fits mem n \<longrightarrow>
              (\<exists>r. summarize mem (cidr 0x0A000002 n) = Inr r \<and> netmask r = ''255.255.255.252'')"
    by blast
  have "make_netmask (MaskStr (string_from_ip_int (prefix_netmask 30)))
          = Inr (prefix_netmask 30, int 30)"
    by (rule make_netmask_netmask) simp
  with mk have n30: "n = 30" by (simp add: w e)
  from t f obtain r where "summarize 2 (cidr 0x0A000002 30) = Inr r"
    "netmask r = ''255.255.255.252''"
    unfolding n30 by blast
  with pi show ?thesis unfolding n30 e c by blast
qed

text \<open>
  Claim C10. With two arguments, a second argument that is the decimal numeral of a
  number \<open>N\<close> from 0 to 32, without a leading \<open>/\<close>, is accepted: \<^const>\<open>parse_input\<close>
  returns the first argument, stripped, followed by \<open>/N\<close>. For an address \<open>a\<close> the
  interface of that target has the prefix length \<open>N\<close> and its netmask, every
  dictionary that \<^const>\<open>summarize\<close> returns for it reports them, and it returns one
  whenever the host list fits in memory.
\<close>

theorem C10_bare_prefix_number:
  assumes "N \<le> 32"
  shows "parse_input [x, str_int (int N)] = Inr (str_strip x @ ''/'' @ str_int (int N))
       \<and> parse_input [string_from_ip_int a, str_int (int N)] = Inr (cidr a N)
       \<and> (\<exists>iface. IPv4Interface (cidr a N) = Inr iface
              \<and> net_prefixlen (iface_network iface) = int N
              \<and> net_netmask (iface_network iface) = prefix_netmask N)
       \<and> (\<forall>mem r. summarize mem (cidr a N) = Inr r \<longrightarrow>
              prefix r = ''/'' @ str_int (int N)
              \<and> netmask r = string_from_ip_int (prefix_netmask N))
       \<and> (\<forall>mem. host_list_fits mem N \<longrightarrow>
              (\<exists>r. summarize mem (cidr a N) = Inr r
                 \<and> prefix r = ''/'' @ str_int (int N)
                 \<and> netmask r = string_from_ip_int (prefix_netmask N)))"
proof -
  have d: "digits (str_int (int N))" by (simp add: digits_str_int)
  then have st: "str_strip (str_int (int N)) = str_int (int N)" by (rule str_strip_digits)
  have "CHR ''/'' \<notin> set (str_int (int N))" by (simp add: str_int_no_slash)
  then have ns: "\<not> str_startswith (str_int (int N)) ''/''"
    using str_startswith_slash by blast
  have mk: "make_netmask (MaskStr (str_int (int N))) = Inr (prefix_netmask N, int N)"
    using assms by (rule make_netmask_str_int)
  have p: "parse_input [y, str_int (int N)] = Inr (str_strip y @ ''/'' @ str_int (int N))" for y
    using ns by (simp add: parse_input_two st mk)
  have p2: "parse_input [string_from_ip_int a, str_int (int N)] = Inr (cidr a N)"
    using p [of "string_from_ip_int a"] by (simp add: cidr_def str_strip_string_from_ip_int)
  from IPv4Interface_cidr_fields [OF assms, of a] have
    i: "\<exists>iface. IPv4Interface (cidr a N) = Inr iface
              \<and> net_prefixlen (iface_network iface) = int N
              \<and> net_netmask (iface_network iface) = prefix_netmask N"
    by blast
  have f: "prefix (summary_of a N) = ''/'' @ str_int (int N)
         \<and> netmask (summary_of a N) = string_from_ip_int (prefix_netmask N)"
    by (simp add: summary_of_def Let_def)
  have r: "prefix r = ''/'' @ str_int (int N)
         \<and> netmask r = string_from_ip_int (prefix_netmask N)"
    if "summarize mem (cidr a N) = Inr r" for mem r
    using summarize_cidr_Inr [OF assms that] f by simp
  have t: "\<exists>r. summarize mem (cidr a N) = Inr r
                 \<and> prefix r = ''/'' @ str_int (int N)
                 \<and> netmask r = string_from_ip_int (prefix_netmask N)"
    if "host_list_fits mem N" for mem
    using that assms f by (simp add: summarize_cidr)
  from p [of x] p2 i r t show ?thesis by blast
qed

theorem C10_bare_prefix_number_witness:
  "parse_input [''10.0.0.1'', ''24''] = Inr ''10.0.0.1/24''
   \<and> (\<exists>r. summarize 254 ''10.0.0.1/24'' = Inr r \<and> prefix r = ''/24''
          \<and> netmask r = ''255.255.255.0'')"
proof -
  have e: "str_int (int 24) = ''24''" "string_from_ip_int 0x0A000001 = ''10.0.0.1''"
    "cidr 0x0A000001 24 = ''10.0.0.1/24''"
    "string_from_ip_int (prefix_netmask 24) = ''255.255.255.0''"
    by code_simp+
  have s: "''/'' @ ''24'' = ''/24''" by simp
  have f: "host_list_fits 254 24" by code_simp
  have h: "(24 :: nat) \<le> 32" by simp
  from C10_bare_prefix_number [OF h, of "''10.0.0.1''" "0x0A000001", unfolded e, unfolded s]
  have p: "parse_input [''10.0.0.1'', ''24''] = Inr ''10.0.0.1/24''"
    and t: "\<forall>mem. host_list_fits mem 24 \<longrightarrow>
              (\<exists>r. summarize mem ''10.0.0.1/24'' = Inr r \<and> prefix r = ''/24''
                 \<and> netmask r = ''255.255.255.0'')"
    by blast+
  from t f have "\<exists>r. summarize 254 ''10.0.0.1/24'' = Inr r \<and> prefix r = ''/24''
                 \<and> netmask r = ''255.255.255.0''"
    by blast
  with p show ?thesis ..
qed

section \<open>The command line\<close>

text \<open>
  Claim C4 says that a wrong argument count and a single argument without \<open>/\<close> end in
  exit code 1. \<^const>\<open>parse_input\<close> raises a \<^verbatim>\<open>ValueError\<close> for both, which the
  handler of the script turns into exit code 2, as it does for every exception.
\<close>

theorem C4_counterexample:
  "main 1000000 [''ipcalc.py'', ''10.0.0.1'', ''255.0.0.0'', ''extra'']
     = ([''Erro: '' @ msg_use], 2)
   \<and> main 1000000 [''ipcalc.py'', ''10.0.0.1''] = ([''Erro: '' @ msg_formato], 2)
   \<and> snd (main 1000000 [''ipcalc.py'', ''10.0.0.1'', ''255.0.0.0'', ''extra'']) \<noteq> 1
   \<and> snd (main 1000000 [''ipcalc.py'', ''10.0.0.1'']) \<noteq> 1"
proof -
  have s: "str_strip ''10.0.0.1'' = ''10.0.0.1''" by code_simp
  have 1: "main 1000000 [''ipcalc.py'', ''10.0.0.1'', ''255.0.0.0'', ''extra'']
             = ([''Erro: '' @ msg_use], 2)"
    by (simp add: main_def parse_input_many)
  have 2: "main 1000000 [''ipcalc.py'', ''10.0.0.1''] = ([''Erro: '' @ msg_formato], 2)"
    by (simp add: main_def parse_input_one s)
  show ?thesis unfolding 1 2 by simp
qed

text \<open>
  Claim C4, amended. With more than two arguments, and with one argument that has no
  \<open>/\<close>, the script prints the single line \<open>Erro: \<close> followed by the usage or format
  message and exits with code 2, whatever the memory. Exit code 1 is that of an
  invocation without arguments, which prints the usage lines, and of no other.
\<close>

theorem C4_usage_errors:
  "(2 < length args \<longrightarrow> main mem (prog # args) = ([''Erro: '' @ msg_use], 2))
   \<and> (CHR ''/'' \<notin> set (str_strip s) \<longrightarrow> main mem [prog, s] = ([''Erro: '' @ msg_formato], 2))
   \<and> (length sys_argv \<le> 1 \<longrightarrow> main mem sys_argv = (usage_lines, 1))
   \<and> (snd (main mem sys_argv) = 1 \<longleftrightarrow> length sys_argv \<le> 1)"
proof -
  have "snd (main mem sys_argv) = 1 \<longleftrightarrow> length sys_argv \<le> 1"
    by (simp add: main_def Let_def split: sum.splits)
  then show ?thesis
    by (simp add: main_def parse_input_many parse_input_one)
qed

theorem C4_usage_errors_witness:
  "main 1000000 [''ipcalc.py'', ''a'', ''b'', ''c''] = ([''Erro: '' @ msg_use], 2)
   \<and> main 1000000 [''ipcalc.py'', ''192.168.1.10''] = ([''Erro: '' @ msg_formato], 2)
   \<and> main 1000000 [''ipcalc.py''] = (usage_lines, 1)"
proof -
  have s: "CHR ''/'' \<notin> set (str_strip ''192.168.1.10'')" by code_simp
  from C4_usage_errors [of "[''a'', ''b'', ''c'']" 1000000 "''ipcalc.py''" "''192.168.1.10''"
      "[''ipcalc.py'']"] s
  show ?thesis by simp
qed

section \<open>Failure of \<^const>\<open>summarize\<close>\<close>






end
